theory Spec2Isabelle
  imports Complex_Main
begin

section \<open>Strings\<close>

text \<open>
  A Python \<open>str\<close> is modelled as a \<open>string\<close> (a list of characters). The
  literals of the source that are not ASCII (the emoji of the result messages, the
  Azerbaijani keywords) are written as their UTF-8 bytes. \<open>str.lower\<close> is modelled on
  the ASCII letters and leaves every other character as it is; \<open>str.strip\<close> and
  \<open>str.split\<close> use the white space characters of ASCII: the space, the five
  characters from tab to carriage return and the four separators \<open>0x1C\<close> to \<open>0x1F\<close>.
\<close>

definition lower_char :: "char \<Rightarrow> char" where
  "lower_char c =
     (let n = (of_char c :: nat)
      in if of_char CHR ''A'' \<le> n \<and> n \<le> of_char CHR ''Z'' then char_of (n + 32) else c)"

definition lower :: "string \<Rightarrow> string" where
  "lower s = map lower_char s"

definition isspace :: "char \<Rightarrow> bool" where
  "isspace c =
     (c \<in> set [CHR '' '', CHR 0x09, CHR 0x0A, CHR 0x0B, CHR 0x0C, CHR 0x0D,
                CHR 0x1C, CHR 0x1D, CHR 0x1E, CHR 0x1F])"

definition strip :: "string \<Rightarrow> string" where
  "strip s = rev (dropWhile isspace (rev (dropWhile isspace s)))"

text \<open>\<open>startswith p s\<close> is Python's \<open>s.startswith(p)\<close>.\<close>

fun startswith :: "'a list \<Rightarrow> 'a list \<Rightarrow> bool" where
  "startswith [] s = True"
| "startswith (p # ps) [] = False"
| "startswith (p # ps) (c # cs) = (p = c \<and> startswith ps cs)"

text \<open>\<open>contains p s\<close> is Python's \<open>p in s\<close> on strings: \<open>p\<close> occurs in \<open>s\<close>.\<close>

fun contains :: "string \<Rightarrow> string \<Rightarrow> bool" where
  "contains p [] = (p = [])"
| "contains p (c # cs) = (startswith p (c # cs) \<or> contains p cs)"

text \<open>
  \<open>split_ws\<close> is \<open>str.split()\<close> without a separator: the maximal runs of characters
  that are not white space, in order; \<open>cur\<close> is the run being read, reversed.
\<close>

fun split_acc :: "string \<Rightarrow> string \<Rightarrow> string list" where
  "split_acc cur [] = (if cur = [] then [] else [rev cur])"
| "split_acc cur (c # cs) =
     (if isspace c then (if cur = [] then split_acc [] cs else rev cur # split_acc [] cs)
      else split_acc (c # cur) cs)"

definition split_ws :: "string \<Rightarrow> string list" where
  "split_ws s = split_acc [] s"

text \<open>\<open>join sep xs\<close> is Python's \<open>sep.join(xs)\<close>.\<close>

fun join :: "string \<Rightarrow> string list \<Rightarrow> string" where
  "join sep [] = []"
| "join sep [x] = x"
| "join sep (x # y # ys) = x @ sep @ join sep (y # ys)"

text \<open>\<open>split_on c s\<close> is \<open>s.split(c)\<close> for a separator of one character.\<close>

fun split_on :: "char \<Rightarrow> string \<Rightarrow> string list" where
  "split_on sep [] = [] # []"
| "split_on sep (c # cs) =
     (if c = sep then [] # split_on sep cs
      else (case split_on sep cs of
              [] \<Rightarrow> [c] # []
            | l # ls \<Rightarrow> (c # l) # ls))"


section \<open>Results: \<open>models.py\<close>\<close>

datatype CommandType =
  OPEN_FOLDER | OPEN_FILE | LIST_FILES | CREATE_FILE | WRITE_FILE | READ_FILE | DELETE_FILE
  | SEARCH_FILES | COPY_FILE | MOVE_FILE | RENAME_FILE | GET_INFO | EXECUTE_COMMAND | CHAT
  | HELP | UNKNOWN

text \<open>
  The \<open>data\<close> of a result is a dictionary whose keys depend on the handler: the
  process streams of \<open>_execute_command\<close>, the path of a file handler.
\<close>

datatype payload =
  ExecData (stdout: string) (stderr: string) (returncode: int) (command: string)
             (execution_time: string)
  | PathData (path: string)

record CommandResult =
  success :: bool
  message :: string
  data :: "payload option"
  command_type :: CommandType
  python_mode :: bool
  python_code :: "string option"

text \<open>The parameters of an intent: a dictionary from field names to strings.\<close>

type_synonym params = "string \<rightharpoonup> string"

text \<open>The decimal text of an integer, as an f-string prints it.\<close>

fun str_nat :: "nat \<Rightarrow> string" where
  "str_nat n =
     (if n < 10 then [char_of (of_char CHR ''0'' + n)]
      else str_nat (n div 10) @ [char_of (of_char CHR ''0'' + n mod 10)])"

definition str_int :: "int \<Rightarrow> string" where
  "str_int i = (if i < 0 then ''-'' @ str_nat (nat (- i)) else str_nat (nat i))"


section \<open>The command gate and the process sandbox: \<open>command_executor.py\<close>\<close>

subsection \<open>The child process\<close>

text \<open>
  \<open>subprocess.run\<close> is the operating system's part: it is a parameter of the model, a
  function from the call (the command line as one string for the shell or as an argument
  vector, and the time limit in seconds) to what the call does: it completes with an
  exit code and the two captured streams, it raises \<open>TimeoutExpired\<close>, or it raises
  another exception with a text.
\<close>

datatype subprocess_call =
  ShellCall (shell_command: string) (timeout: nat)
  | ArgvCall (argv: "string list") (timeout: nat)

datatype proc_outcome =
  Completed int string string
  | TimeoutExpired
  | Raised string

type_synonym subprocess = "subprocess_call \<Rightarrow> proc_outcome"

subsection \<open>The lists of \<open>_execute_command\<close>\<close>

definition safe_commands :: "string list" where
  "safe_commands =
    [''ls'', ''pwd'', ''cd'', ''mkdir'', ''rmdir'', ''touch'', ''cat'', ''head'', ''tail'',
     ''less'', ''more'', ''wc'', ''sort'', ''uniq'', ''grep'', ''find'', ''locate'',
     ''which'', ''whereis'', ''file'', ''stat'', ''du'', ''df'', ''mount'', ''umount'',
     ''chmod'', ''chown'', ''chgrp'', ''ln'', ''readlink'', ''awk'', ''sed'', ''cut'',
     ''paste'', ''join'', ''diff'', ''cmp'', ''comm'', ''tr'', ''expand'', ''unexpand'',
     ''fold'', ''fmt'', ''pr'', ''column'', ''nl'', ''tac'', ''rev'', ''base64'', ''hexdump'',
     ''od'', ''uname'', ''hostname'', ''whoami'', ''id'', ''groups'', ''who'', ''w'',
     ''users'', ''last'', ''lastlog'', ''uptime'', ''date'', ''cal'', ''time'', ''env'',
     ''printenv'', ''set'', ''ps'', ''top'', ''htop'', ''free'', ''vmstat'', ''iostat'',
     ''sar'', ''netstat'', ''ss'', ''lsof'', ''fuser'', ''lscpu'', ''lsmem'', ''ping'',
     ''traceroute'', ''nslookup'', ''dig'', ''host'', ''curl'', ''wget'', ''nc'', ''telnet'',
     ''ssh'', ''scp'', ''rsync'', ''ifconfig'', ''ip'', ''route'', ''arp'', ''iptables'',
     ''ufw'', ''kill'', ''killall'', ''pkill'', ''pgrep'', ''jobs'', ''bg'', ''fg'',
     ''nohup'', ''screen'', ''tmux'', ''at'', ''crontab'', ''systemctl'', ''service'',
     ''initctl'', ''tar'', ''gzip'', ''gunzip'', ''bzip2'', ''bunzip2'', ''xz'', ''unxz'',
     ''zip'', ''unzip'', ''7z'', ''rar'', ''unrar'', ''cpio'', ''ar'', ''zipinfo'', ''apt'',
     ''apt-get'', ''apt-cache'', ''dpkg'', ''yum'', ''dnf'', ''rpm'', ''pacman'', ''brew'',
     ''pip'', ''npm'', ''yarn'', ''gem'', ''cargo'', ''go'', ''maven'', ''gradle'', ''git'',
     ''svn'', ''hg'', ''make'', ''cmake'', ''gcc'', ''g++'', ''clang'', ''python'',
     ''python3'', ''node'', ''npm'', ''yarn'', ''java'', ''javac'', ''javadoc'', ''mvn'',
     ''gradle'', ''docker'', ''docker-compose'', ''kubectl'', ''helm'', ''terraform'',
     ''ansible'', ''tail'', ''journalctl'', ''dmesg'', ''syslog'', ''logger'', ''watch'',
     ''strace'', ''ltrace'', ''tcpdump'', ''wireshark'', ''tcpflow'', ''ngrep'', ''iftop'',
     ''iotop'', ''nethogs'', ''man'', ''info'', ''help'', ''type'', ''alias'', ''history'',
     ''clear'', ''reset'', ''stty'', ''tty'', ''mesg'', ''write'', ''wall'', ''talk'',
     ''finger'', ''whois'', ''wget'', ''curl'', ''lynx'', ''links'', ''elinks'', ''w3m'',
     ''tree'', ''exa'', ''bat'', ''fd'', ''ripgrep'', ''bc'', ''dc'', ''factor'', ''primes'',
     ''seq'', ''shuf'', ''random'', ''expr'', ''let'', ''yes'', ''no'', ''true'', ''false'',
     ''echo'', ''printf'', ''sleep'', ''wait'', ''timeout'', ''nice'', ''renice'', ''ionice'',
     ''taskset'', ''chrt'', ''flock'', ''fuser'', ''lsof'']"

definition dangerous_patterns :: "string list" where
  "dangerous_patterns =
    [''rm '', ''rm -'', ''del '', ''format '', ''mkfs'', ''dd if='', ''dd of='', ''shutdown'',
     ''reboot'', ''halt'', ''poweroff'', ''init 0'', ''init 6'', ''kill -9'', ''killall -9'',
     ''pkill -9'', ''chmod 777'', ''chmod +s'', ''chown root'', ''passwd'', ''useradd'',
     ''userdel'', ''groupadd'', ''groupdel'', ''usermod'', ''groupmod'', ''visudo'',
     ''sudo '', ''su '', ''sudoers'', ''nc -l'', ''netcat -l'', ''python -m http.server'',
     ''python3 -m http.server'', ''php -S'', ''ruby -run'', ''perl -MIO::Socket'',
     ''telnetd'', ''sshd'', ''ftp'', ''tftp'', ''mount -o'', ''umount -f'', ''fdisk'',
     ''parted'', ''mkfs'', ''fsck'', ''badblocks'', ''dd if=/dev/'', ''dd of=/dev/'',
     ''cat > /dev/'', ''echo > /dev/'', ''kill -STOP'', ''kill -CONT'', ''renice -20'',
     ''nice -20'', ''ionice -c 1'', ''taskset -c 0'', ''chrt -f 99'', ''strace -e trace'',
     ''ltrace -e'', ''apt remove'', ''apt purge'', ''yum remove'', ''dnf remove'',
     ''pacman -R'', ''brew uninstall'', ''pip uninstall'', ''npm uninstall'',
     ''gem uninstall'', ''cargo uninstall'', ''make install'', ''make uninstall'',
     ''cmake --install'', ''docker run --privileged'', ''docker exec --privileged'',
     ''kubectl delete'', ''helm uninstall'', ''terraform destroy'', ''; rm'', ''; del'',
     ''; format'', ''; shutdown'', ''; reboot'', ''&& rm'', ''&& del'', ''|| rm'', ''|| del'',
     ''| rm'', ''| del'', ''> /dev/'', ''>> /dev/'', ''2> /dev/'', ''bash -c'', ''sh -c'',
     ''zsh -c'', ''fish -c'', ''python -c'', ''perl -e'', ''ruby -e'', ''node -e'',
     ''php -r'', ''lua -e'', ''awk '' @ [CHR 0x27] @ ''{'', ''sed '' @ [CHR 0x27], ''eval'',
     ''exec'', ''export PATH='', ''export LD_LIBRARY_PATH='', ''export PYTHONPATH='',
     ''alias rm='', ''unalias'', ''hash -r'', ''builtin'', ''command'', ''type -a'',
     ''declare -f'']"

subsection \<open>Messages\<close>

definition newline :: string where
  "newline = [CHR 0x0A]"

text \<open>The emoji of the messages, in UTF-8: U+1F6AB, U+2705, U+274C, U+23F0.\<close>

definition no_entry_sign :: string where
  "no_entry_sign = [CHR 0xF0, CHR 0x9F, CHR 0x9A, CHR 0xAB]"

definition check_mark :: string where
  "check_mark = [CHR 0xE2, CHR 0x9C, CHR 0x85]"

definition cross_mark :: string where
  "cross_mark = [CHR 0xE2, CHR 0x9D, CHR 0x8C]"

definition alarm_clock :: string where
  "alarm_clock = [CHR 0xE2, CHR 0x8F, CHR 0xB0]"

definition not_allowed_message :: string where
  "not_allowed_message = ''Command not allowed. Safe commands: '' @ join '', '' safe_commands"

definition blocked_message :: "string \<Rightarrow> string" where
  "blocked_message pattern =
     no_entry_sign @ '' Command blocked for security: Contains dangerous pattern ''
       @ [CHR 0x27] @ pattern @ [CHR 0x27]"

definition truncation_marker :: string where
  "truncation_marker =
     newline @ newline @ ''... (output truncated, showing first 2000 characters)''"

definition failure :: "string \<Rightarrow> CommandType \<Rightarrow> CommandResult" where
  "failure msg ct =
     \<lparr>success = False, message = msg, data = None, command_type = ct,
      python_mode = False, python_code = None\<rparr>"

subsection \<open>\<open>CommandExecutor._execute_command\<close>\<close>

text \<open>The loop over \<open>dangerous_patterns\<close>: the first pattern that occurs in the command.\<close>

fun first_dangerous :: "string \<Rightarrow> string list \<Rightarrow> string option" where
  "first_dangerous command_lower [] = None"
| "first_dangerous command_lower (pattern # patterns) =
     (if contains pattern command_lower then Some pattern
      else first_dangerous command_lower patterns)"

definition use_shell :: "string \<Rightarrow> bool" where
  "use_shell cmd =
     (contains ''|'' cmd \<or> contains ''>'' cmd \<or> contains ''&&'' cmd \<or> contains ''||'' cmd)"

definition shell_timeout :: nat where
  "shell_timeout = 15"

definition argv_timeout :: nat where
  "argv_timeout = 10"

text \<open>The message and the result built from a completed process.\<close>

definition completed_message :: "string \<Rightarrow> int \<Rightarrow> string \<Rightarrow> string \<Rightarrow> string" where
  "completed_message cmd rc out err =
     (if rc = 0 then
        (if out \<noteq> [] then
           (if length out > 2000
            then check_mark @ '' '' @ cmd @ newline @ newline @ (take 2000 out @ truncation_marker)
            else check_mark @ '' '' @ cmd @ newline @ newline @ out)
         else check_mark @ '' '' @ cmd @ '' (executed successfully)'')
      else
        cross_mark @ '' Command failed (exit code '' @ str_int rc @ ''): '' @ cmd
          @ (if err \<noteq> [] then newline @ newline @ ''Error details:'' @ newline @ err else [])
          @ (if out \<noteq> [] then newline @ newline @ ''Output:'' @ newline @ out else []))"

text \<open>
  \<open>_execute_command\<close> returns its result together with the calls of \<open>subprocess.run\<close>
  it made, in order: the empty list when nothing was executed.
\<close>

definition execute_command :: "subprocess \<Rightarrow> params \<Rightarrow> CommandResult \<times> subprocess_call list" where
  "execute_command run ps =
     (let cmd = (case ps ''command'' of None \<Rightarrow> [] | Some c \<Rightarrow> c);
          cmd_parts = split_ws cmd
      in case cmd_parts of
           [] \<Rightarrow> (failure ''Empty command'' EXECUTE_COMMAND, [])
         | base_command # _ \<Rightarrow>
             if base_command \<notin> set safe_commands
             then (failure not_allowed_message EXECUTE_COMMAND, [])
             else
               (case first_dangerous (lower cmd) dangerous_patterns of
                  Some pattern \<Rightarrow> (failure (blocked_message pattern) EXECUTE_COMMAND, [])
                | None \<Rightarrow>
                    let call = (if use_shell cmd then ShellCall cmd shell_timeout
                                else ArgvCall cmd_parts argv_timeout)
                    in (case run call of
                          Completed rc out err \<Rightarrow>
                            (let out' = strip out; err' = strip err
                             in \<lparr>success = (rc = 0),
                                 message = completed_message cmd rc out' err',
                                 data = Some (ExecData out' err' rc cmd ''N/A''),
                                 command_type = EXECUTE_COMMAND,
                                 python_mode = False, python_code = None\<rparr>)
                        | TimeoutExpired \<Rightarrow>
                            failure (alarm_clock @ '' Command timed out: '' @ cmd) EXECUTE_COMMAND
                        | Raised e \<Rightarrow>
                            failure (cross_mark @ '' Command failed: '' @ e) EXECUTE_COMMAND,
                        [call])))"


subsection \<open>\<open>CommandExecutor._normalize_path\<close>\<close>

text \<open>
  A resolved \<open>Path\<close> is absolute: it is modelled as the list of its components below
  the root, so \<open>/home/user\<close> is \<open>[''home'', ''user'']\<close> and \<open>/\<close> is \<open>[]\<close>.
  \<open>os.path.expanduser\<close> and \<open>Path.resolve\<close> read the environment and the file system
  (the home directory, the working directory, the symbolic links); they are the two
  fields of the environment that the model takes as a parameter. \<open>expanduser\<close> always
  returns a string. \<open>Path.resolve\<close> can raise: \<open>ValueError\<close> for a path with a NUL
  character, \<open>RuntimeError\<close> for a loop of symbolic links; so \<open>resolve\<close> returns an error
  or the resolved path.
\<close>

type_synonym abs_path = "string list"

text \<open>The exceptions of the path handling, each with its text.\<close>

datatype error = PermissionError string | ValueError string | RuntimeError string


record os_env =
  expanduser :: "string \<Rightarrow> string"
  resolve :: "string \<Rightarrow> error + abs_path"

definition common_folders :: "(string \<times> string) list" where
  "common_folders =
    [(''downloads'', ''Downloads''),
     (''documents'', ''Documents''),
     (''pictures'', ''Pictures''),
     (''desktop'', ''Desktop''),
     (''music'', ''Music''),
     (''videos'', ''Videos''),
     (''home'', [])]"

definition path_str :: "abs_path \<Rightarrow> string" where
  "path_str p = (if p = [] then ''/'' else concat (map (\<lambda>c. ''/'' @ c) p))"

text \<open>
  \<open>PurePath.relative_to\<close>: the path below \<open>other\<close> when the components of \<open>other\<close> are
  the first components of the path, and \<open>ValueError\<close> otherwise.
\<close>

definition relative_to :: "abs_path \<Rightarrow> abs_path \<Rightarrow> error + string list" where
  "relative_to p other =
     (if startswith other p then Inr (drop (length other) p)
      else Inl (ValueError (path_str p @ '' is not in the subpath of '' @ path_str other)))"

text \<open>
  The local \<open>path\<close> is reassigned when the input is a folder alias, and the message of
  the \<open>PermissionError\<close> carries the reassigned value. The two calls of \<open>resolve\<close> stand
  outside the \<open>try\<close>, the input path first and the allowed root second, so what they
  raise leaves the function as it is; inside the \<open>try\<close> only the \<open>ValueError\<close> of
  \<open>relative_to\<close> is caught.
\<close>

definition normalize_path :: "os_env \<Rightarrow> string \<Rightarrow> string \<Rightarrow> error + abs_path" where
  "normalize_path env allowed_base_dir path0 =
     (let path_lower = strip (lower path0);
          path1 =
            (case map_of common_folders path_lower of
               Some folder_name \<Rightarrow>
                 if \<not> contains ''/'' path0 \<and> \<not> contains [CHR 0x5C] path0
                 then (if folder_name \<noteq> [] then ''~/'' @ folder_name else ''~'')
                 else path0
             | None \<Rightarrow> path0);
          expanded = expanduser env path1
      in case resolve env expanded of
           Inl e \<Rightarrow> Inl e
         | Inr normalized \<Rightarrow>
             (case resolve env allowed_base_dir of
                Inl e \<Rightarrow> Inl e
              | Inr base \<Rightarrow>
                  (case relative_to normalized base of
                     Inl (ValueError m) \<Rightarrow>
                       Inl (PermissionError
                              (''Access denied: '' @ path1 @ '' is outside allowed directories''))
                   | Inl e \<Rightarrow> Inl e
                   | Inr rel \<Rightarrow> Inr normalized)))"

text \<open>
  A concrete environment: a POSIX system with the given home and working directories, no
  symbolic links and no home directory of another user. \<open>posix_expanduser\<close> replaces a
  leading \<open>~\<close> that is followed by \<open>/\<close> or by nothing; \<open>posix_resolve\<close> raises
  \<open>ValueError\<close> for a path with a NUL character, and otherwise makes the path absolute
  and removes the empty, \<open>.\<close> and \<open>..\<close> components.
\<close>

definition posix_expanduser :: "string \<Rightarrow> string \<Rightarrow> string" where
  "posix_expanduser userhome p =
     (if \<not> startswith ''~'' p then p
      else
        (let name = takeWhile (\<lambda>c. c \<noteq> CHR ''/'') (tl p);
             rest = dropWhile (\<lambda>c. c \<noteq> CHR ''/'') (tl p)
         in if name \<noteq> [] then p
            else
              (let r = rev (dropWhile (\<lambda>c. c = CHR ''/'') (rev userhome)) @ rest
               in if r = [] then ''/'' else r)))"

fun walk :: "abs_path \<Rightarrow> string list \<Rightarrow> abs_path" where
  "walk cur [] = cur"
| "walk cur (c # cs) =
     (if c = [] \<or> c = ''.'' then walk cur cs
      else if c = ''..'' then walk (butlast cur) cs
      else walk (cur @ [c]) cs)"

definition posix_resolve :: "abs_path \<Rightarrow> string \<Rightarrow> error + abs_path" where
  "posix_resolve cwd p =
     (if CHR 0x00 \<in> set p then Inl (ValueError ''embedded null byte'')
      else Inr (walk (if startswith ''/'' p then [] else cwd) (split_on CHR ''/'' p)))"

definition posix_env :: "string \<Rightarrow> abs_path \<Rightarrow> os_env" where
  "posix_env userhome cwd =
     \<lparr>expanduser = posix_expanduser userhome, resolve = posix_resolve cwd\<rparr>"

subsection \<open>\<open>CommandExecutor._delete_file\<close>\<close>

text \<open>
  The file system is a partial map from absolute paths to the kind of the entry there.
  \<open>unlink\<close> removes one entry; \<open>shutil.rmtree\<close> removes the entry and every entry
  below it. Both are modelled as succeeding.
\<close>

datatype node = RegularFile | Directory | Special







section \<open>The script fallback: \<open>python_executor.py\<close>\<close>

subsection \<open>\<open>PythonExecutor.can_handle_with_python\<close>\<close>

definition python_indicators_en :: "string list" where
  "python_indicators_en =
    [''calculate'', ''compute'', ''average'', ''sum'', ''count'', ''analyze'',
     ''parse'', ''extract'', ''process'', ''convert'', ''transform'',
     ''compare'', ''find all'', ''filter'', ''sort by'', ''statistics'',
     ''json'', ''xml'', ''csv'', ''data'', ''numbers from'', ''pattern'',
     ''regex'', ''replace all'', ''manipulate'', ''generate random'',
     ''probability'', ''factorial'', ''fibonacci'', ''prime'', ''measure'',
     ''size'', ''how many'', ''total'', ''list all'', ''find'', ''search'']"

text \<open>
  The Azerbaijani keywords, in UTF-8: \<open>0xC3 0xB6\<close> is o with diaeresis, \<open>0xC3 0xA7\<close>
  c with cedilla, \<open>0xC9 0x99\<close> schwa, \<open>0xC3 0xBC\<close> u with diaeresis, \<open>0xC4 0xB1\<close>
  dotless i.
\<close>

definition python_indicators_az :: "string list" where
  "python_indicators_az =
    [''hesabla'',
     [CHR 0xC3, CHR 0xB6] @ ''l'' @ [CHR 0xC3, CHR 0xA7],
     ''say'',
     ''c'' @ [CHR 0xC9, CHR 0x99] @ ''m'',
     ''ortalama'',
     ''t'' @ [CHR 0xC9, CHR 0x99] @ ''hlil'',
     ''tap'', ''axtar'',
     ''s'' @ [CHR 0xC3, CHR 0xBC] @ ''z'',
     [CHR 0xC3, CHR 0xA7] @ ''evir'',
     ''m'' @ [CHR 0xC3, CHR 0xBC] @ ''qayis'' @ [CHR 0xC9, CHR 0x99],
     ''statistika'',
     [CHR 0xC3, CHR 0xB6] @ ''l'' @ [CHR 0xC3, CHR 0xA7] @ [CHR 0xC3, CHR 0xBC],
     ''ne'' @ [CHR 0xC3, CHR 0xA7] @ [CHR 0xC9, CHR 0x99],
     ''c'' @ [CHR 0xC9, CHR 0x99] @ ''mi'',
     ''siyah'' @ [CHR 0xC4, CHR 0xB1],
     ''ham'' @ [CHR 0xC4, CHR 0xB1] @ ''s'' @ [CHR 0xC4, CHR 0xB1]]"

text \<open>
  \<open>failed_command_type\<close> is a string or \<open>None\<close> (the default of the parameter), so an
  optional string.
\<close>

definition can_handle_with_python :: "string \<Rightarrow> string option \<Rightarrow> bool" where
  "can_handle_with_python user_request failed_command_type =
     (let request_lower = lower user_request;
          all_indicators = python_indicators_en @ python_indicators_az;
          has_python_indicator = list_ex (\<lambda>indicator. contains indicator request_lower) all_indicators
      in if failed_command_type = Some ''execute_command'' \<or> failed_command_type = Some ''unknown''
         then True
         else if has_python_indicator then True
         else True)"


subsection \<open>\<open>PythonExecutor.is_safe_code\<close>\<close>

text \<open>The pairs of a pattern and its reason, the local \<open>dangerous_patterns\<close> of the method.\<close>

definition code_patterns :: "(string \<times> string) list" where
  "code_patterns =
    [(''import subprocess'', ''Subprocess execution not allowed''),
     (''import os.system'', ''System command execution not allowed''),
     (''exec('', ''Dynamic code execution not allowed''),
     (''eval('', ''Dynamic evaluation not allowed''),
     (''__import__'', ''Dynamic imports not allowed''),
     (''open('', ''File opening detected - ensure safe paths'')]"

text \<open>The loop: a pattern with \<open>open(\<close> only logs a warning and the loop goes on.\<close>

fun scan_code :: "string \<Rightarrow> (string \<times> string) list \<Rightarrow> bool \<times> string" where
  "scan_code code_lower [] = (True, ''Code appears safe'')"
| "scan_code code_lower ((pattern, reason) # rest) =
     (if contains (lower pattern) code_lower
      then (if contains ''open('' pattern then scan_code code_lower rest else (False, reason))
      else scan_code code_lower rest)"

definition is_safe_code :: "string \<Rightarrow> bool \<times> string" where
  "is_safe_code code = scan_code (lower code) code_patterns"

subsection \<open>\<open>PythonExecutor.execute_python_code\<close>\<close>

definition execution_timeout :: nat where
  "execution_timeout = 5"

definition max_output_size :: nat where
  "max_output_size = 10000"

text \<open>
  The child \<open>python3\<close> process is a parameter: a function from the text of the script
  written to the temporary file and the time limit to what the process does. \<open>Raised\<close>
  is an exception of the creation of the process; decoding the streams is the identity.
\<close>

type_synonym python_process = "string \<Rightarrow> nat \<Rightarrow> proc_outcome"

definition execute_python_code :: "python_process \<Rightarrow> string \<Rightarrow> bool \<times> string \<times> string" where
  "execute_python_code run code =
     (case run code execution_timeout of
        Completed rc out err \<Rightarrow> (rc = 0, take max_output_size out, take max_output_size err)
      | TimeoutExpired \<Rightarrow>
          (False, [], ''Execution timed out after '' @ str_nat execution_timeout @ '' seconds'')
      | Raised e \<Rightarrow> (False, [], e))"

subsection \<open>\<open>PythonExecutor.execute_with_python\<close>\<close>

definition interpret_output :: "string \<Rightarrow> string \<Rightarrow> string" where
  "interpret_output output original_request =
     (let lines = split_on CHR 0x0A (strip output)
      in if length lines \<le> 10 then ''**Result:**'' @ newline @ newline @ strip output
         else ''**Result:** (showing '' @ str_nat (length lines) @ '' lines of output)''
                @ newline @ newline @ strip output)"

text \<open>The dictionary that \<open>execute_with_python\<close> returns.\<close>

record python_result =
  r_success :: bool
  r_message :: string
  r_python_mode :: bool
  r_code :: string
  r_output :: string
  r_error :: "string option"

text \<open>The optional context: the classification of the failed intent and its parameters.\<close>

type_synonym script_context = "(CommandType \<times> params) option"

text \<open>
  \<open>generate_python_code\<close> asks the language model for the script and falls back to a
  fixed script when that fails; it is the external collaborator and a parameter here.
  \<open>execute_with_python\<close> returns its dictionary together with the scripts it handed to
  \<open>execute_python_code\<close>, in order: the empty list when no script was run.
\<close>

definition execute_with_python ::
  "(string \<Rightarrow> script_context \<Rightarrow> string) \<Rightarrow> python_process \<Rightarrow> string \<Rightarrow> script_context
     \<Rightarrow> python_result \<times> string list" where
  "execute_with_python generate_python_code run user_request ctx =
     (let code = generate_python_code user_request ctx
      in if code = [] \<or> length (strip code) < 10
         then (\<lparr>r_success = False, r_message = ''Failed to generate Python code'',
                 r_python_mode = True, r_code = code, r_output = [],
                 r_error = Some ''Code generation failed''\<rparr>, [])
         else
           (case execute_python_code run code of
              (ok, out, err) \<Rightarrow>
                (\<lparr>r_success = ok,
                  r_message =
                    (if ok \<and> out \<noteq> [] then interpret_output out user_request
                     else if err \<noteq> [] then
                       ''Python execution encountered an error:'' @ newline @ err
                     else ''Python code executed but produced no output.''),
                  r_python_mode = True, r_code = code, r_output = out,
                  r_error = (if err \<noteq> [] then Some err else None)\<rparr>,
                 [code])))"


section \<open>Admission control: \<open>main.py\<close>\<close>

subsection \<open>\<open>_allow_request\<close>\<close>

text \<open>
  \<open>time.time()\<close> is a parameter \<open>now\<close>, a real number of seconds. The table of the
  buckets is a map from client identifiers to the timestamps of the bucket, oldest first.
\<close>

definition RATE_LIMIT_WINDOW_SEC :: real where
  "RATE_LIMIT_WINDOW_SEC = 30"

definition RATE_LIMIT_MAX_REQUESTS :: nat where
  "RATE_LIMIT_MAX_REQUESTS = 10"

type_synonym buckets = "string \<rightharpoonup> real list"

text \<open>The loop \<open>while dq and dq[0] < window_start: dq.popleft()\<close>.\<close>

fun drop_old :: "real \<Rightarrow> real list \<Rightarrow> real list" where
  "drop_old window_start [] = []"
| "drop_old window_start (t # dq) =
     (if t < window_start then drop_old window_start dq else t # dq)"

definition allow_request :: "real \<Rightarrow> string \<Rightarrow> buckets \<Rightarrow> bool \<times> buckets" where
  "allow_request now client_id bs =
     (let window_start = now - RATE_LIMIT_WINDOW_SEC;
          dq = drop_old window_start (case bs client_id of None \<Rightarrow> [] | Some d \<Rightarrow> d)
      in if length dq \<ge> RATE_LIMIT_MAX_REQUESTS then (False, bs(client_id \<mapsto> dq))
         else (True, bs(client_id \<mapsto> dq @ [now])))"

text \<open>The requests of one client at the given times, in order: the answers and the table left.\<close>

fun allow_requests :: "real list \<Rightarrow> string \<Rightarrow> buckets \<Rightarrow> bool list \<times> buckets" where
  "allow_requests [] client_id bs = ([], bs)"
| "allow_requests (now # later) client_id bs =
     (case allow_request now client_id bs of
        (ok, bs') \<Rightarrow>
          (case allow_requests later client_id bs' of
             (oks, bs'') \<Rightarrow> (ok # oks, bs'')))"

definition bucket :: "buckets \<Rightarrow> string \<Rightarrow> real list" where
  "bucket bs client_id = (case bs client_id of None \<Rightarrow> [] | Some d \<Rightarrow> d)"

text \<open>
  The tables the process can hold: the empty table of the start, and the table after any
  call of \<open>_allow_request\<close>, for any client at any time.
\<close>

inductive reachable :: "buckets \<Rightarrow> bool" where
  start: "reachable Map.empty"
| step: "reachable bs \<Longrightarrow> reachable (snd (allow_request now client_id bs))"

text \<open>
  The limiter in the words of the specification, with no pruning: a request at time \<open>t\<close>
  is rejected once the count of admitted requests in the window that ends at \<open>t\<close> has
  reached the maximum, and admitted otherwise; \<open>admitted\<close> holds the timestamps of all
  requests admitted so far. A timestamp exactly one window length old counts as inside
  the window, as in the code.
\<close>

fun sliding_window_spec :: "real list \<Rightarrow> real list \<Rightarrow> bool list" where
  "sliding_window_spec admitted [] = []"
| "sliding_window_spec admitted (t # ts) =
     (if length (filter (\<lambda>e. t - RATE_LIMIT_WINDOW_SEC \<le> e) admitted) < RATE_LIMIT_MAX_REQUESTS
      then True # sliding_window_spec (admitted @ [t]) ts
      else False # sliding_window_spec admitted ts)"

text \<open>The times of the requests that were admitted, given the answers.\<close>

definition admitted_times :: "real list \<Rightarrow> bool list \<Rightarrow> real list" where
  "admitted_times ts oks = map fst (filter snd (zip ts oks))"

subsection \<open>\<open>LRUCacheTTL\<close>\<close>

text \<open>
  The \<open>OrderedDict\<close> is an association list in the order of the dictionary: the first
  pair is the one \<open>popitem(last=False)\<close> removes, the last pair the one \<open>move_to_end\<close>
  has just moved. Each key is mapped to its timestamp and its value.
\<close>

record 'v LRUCacheTTL =
  max_size :: nat
  ttl :: int
  store :: "(string \<times> real \<times> 'v) list"

text \<open>\<open>store[key] = item\<close>: an existing key keeps its place, a new key goes to the end.\<close>

fun od_set :: "string \<Rightarrow> 'a \<Rightarrow> (string \<times> 'a) list \<Rightarrow> (string \<times> 'a) list" where
  "od_set k x [] = [(k, x)]"
| "od_set k x ((k', y) # kvs) = (if k' = k then (k, x) # kvs else (k', y) # od_set k x kvs)"

text \<open>\<open>move_to_end(key)\<close> for a key of the dictionary.\<close>

definition move_to_end :: "string \<Rightarrow> (string \<times> 'a) list \<Rightarrow> (string \<times> 'a) list" where
  "move_to_end k kvs =
     (case map_of kvs k of
        None \<Rightarrow> kvs
      | Some x \<Rightarrow> filter (\<lambda>kv. fst kv \<noteq> k) kvs @ [(k, x)])"

text \<open>\<open>del store[key]\<close>.\<close>

definition od_del :: "string \<Rightarrow> (string \<times> 'a) list \<Rightarrow> (string \<times> 'a) list" where
  "od_del k kvs = filter (\<lambda>kv. fst kv \<noteq> k) kvs"

text \<open>\<open>get\<close> returns the value, or \<open>None\<close>, and the cache it leaves.\<close>

definition cache_get :: "real \<Rightarrow> string \<Rightarrow> 'v LRUCacheTTL \<Rightarrow> 'v option \<times> 'v LRUCacheTTL" where
  "cache_get now key c =
     (case map_of (store c) key of
        None \<Rightarrow> (None, c)
      | Some (ts, v) \<Rightarrow>
          if now - ts > real_of_int (ttl c)
          then (None, c\<lparr>store := od_del key (store c)\<rparr>)
          else (Some v, c\<lparr>store := move_to_end key (store c)\<rparr>))"

definition cache_set :: "real \<Rightarrow> string \<Rightarrow> 'v \<Rightarrow> 'v LRUCacheTTL \<Rightarrow> 'v LRUCacheTTL" where
  "cache_set now key v c =
     (let s = move_to_end key (od_set key (now, v) (store c))
      in if length s > max_size c then c\<lparr>store := tl s\<rparr> else c\<lparr>store := s\<rparr>)"

definition intent_cache :: "'v LRUCacheTTL" where
  "intent_cache = \<lparr>max_size = 256, ttl = 180, store = []\<rparr>"


section \<open>Concrete inputs\<close>

text \<open>A child process that exits at once with code 0 and empty streams.\<close>

definition idle_process :: subprocess where
  "idle_process call = Completed 0 [] []"

text \<open>A message cites a deny-list pattern when it is the blocked message of one.\<close>

definition cites_dangerous_pattern :: "string \<Rightarrow> bool" where
  "cites_dangerous_pattern msg = list_ex (\<lambda>p. msg = blocked_message p) dangerous_patterns"

text \<open>A script generator that returns the given script for every request.\<close>

definition scripted_generator :: "string \<Rightarrow> string \<Rightarrow> script_context \<Rightarrow> string" where
  "scripted_generator code user_request ctx = code"

text \<open>A script process that exits at once with code 0 and empty streams.\<close>

definition idle_python :: python_process where
  "idle_python code limit = Completed 0 [] []"

text \<open>A script that imports \<open>subprocess\<close> and runs \<open>ls\<close> with it.\<close>

definition unsafe_script :: string where
  "unsafe_script = ''import subprocess; print(subprocess.check_output(chr(108) + chr(115)))''"

text \<open>
  Processes that write 10001 characters to each stream and exit, with code 0 or, for the
  failing one, with code 1.
\<close>

definition chatty_process :: subprocess where
  "chatty_process call = Completed 0 (replicate 10001 CHR ''a'') (replicate 10001 CHR ''b'')"

definition failing_process :: subprocess where
  "failing_process call = Completed 1 (replicate 10001 CHR ''a'') (replicate 10001 CHR ''b'')"

definition chatty_python :: python_process where
  "chatty_python code limit = Completed 0 (replicate 10001 CHR ''a'') (replicate 10001 CHR ''b'')"

text \<open>
  A POSIX system with the home and the working directory \<open>/home/user\<close>, and a file system
  on it.
\<close>

definition sample_env :: os_env where
  "sample_env = posix_env ''/home/user'' [''home'', ''user'']"


text \<open>Eleven requests of one client: ten in ten seconds, one more thirty seconds after the first.\<close>

definition burst :: "real list" where
  "burst = [0, 1, 2, 3, 4, 5, 6, 7, 8, 9, 30]"

text \<open>The same requests and two more, half a second after the window of the first has elapsed.\<close>

definition sliding :: "real list" where
  "sliding = [0, 1, 2, 3, 4, 5, 6, 7, 8, 9, 30, 30.5, 30.6]"

text \<open>A full cache of capacity two; \<open>a\<close> is the older entry.\<close>

definition small_cache :: "nat LRUCacheTTL" where
  "small_cache = \<lparr>max_size = 2, ttl = 180, store = [(''a'', 0, 1), (''b'', 100, 2)]\<rparr>"


section \<open>Properties of the command gate\<close>

lemma first_dangerous_Some:
  "first_dangerous cl ps = Some p \<Longrightarrow> p \<in> set ps \<and> contains p cl"
  by (induction ps) (auto split: if_splits)

lemma first_dangerous_None:
  "(first_dangerous cl ps = None) = (\<forall>p \<in> set ps. \<not> contains p cl)"
  by (induction ps) auto

lemma split_rm: "split_ws ''rm -rf /'' = [''rm'', ''-rf'', ''/'']"
  by (simp add: split_ws_def isspace_def)

lemma rm_not_safe: "''rm'' \<notin> set safe_commands"
  by (simp add: safe_commands_def)

lemma not_allowed_not_blocked: "not_allowed_message \<noteq> blocked_message p"
  by (simp add: not_allowed_message_def blocked_message_def no_entry_sign_def)

lemma not_allowed_cites_nothing: "\<not> cites_dangerous_pattern not_allowed_message"
  by (simp add: cites_dangerous_pattern_def list_ex_iff not_allowed_not_blocked)

text \<open>
  C2, as the code has it. The allow-list test comes first and returns: a command whose
  first token is not on the allow-list is denied with the message that lists the safe
  commands, whatever deny-list pattern it contains, and no process is started. The
  deny-list scan is reached only by allow-listed base commands.
\<close>

theorem not_allowlisted_denied_first:
  assumes "ps ''command'' = Some cmd"
    and "split_ws cmd = base # rest"
    and "base \<notin> set safe_commands"
  shows "execute_command run ps = (failure not_allowed_message EXECUTE_COMMAND, [])"
  using assms by (simp add: execute_command_def Let_def)

theorem not_allowlisted_denied_first_witness:
  "[''command'' \<mapsto> ''rm -rf /''] ''command'' = Some ''rm -rf /''
   \<and> split_ws ''rm -rf /'' = ''rm'' # [''-rf'', ''/'']
   \<and> ''rm'' \<notin> set safe_commands
   \<and> execute_command idle_process [''command'' \<mapsto> ''rm -rf /'']
       = (failure not_allowed_message EXECUTE_COMMAND, [])"
proof -
  have h1: "[''command'' \<mapsto> ''rm -rf /''] ''command'' = Some ''rm -rf /''" by simp
  have h2: "split_ws ''rm -rf /'' = ''rm'' # [''-rf'', ''/'']" by (rule split_rm)
  have h3: "''rm'' \<notin> set safe_commands" by (rule rm_not_safe)
  from not_allowlisted_denied_first
    [where ps = "[''command'' \<mapsto> ''rm -rf /'']" and run = idle_process, OF h1 h2 h3] h1 h2 h3
  show ?thesis by blast
qed

text \<open>
  C2, as the claim states it, fails at \<open>rm -rf /\<close>: the case-folded command contains
  the deny-list pattern \<open>rm \<close>, and the message of the result cites no deny-list pattern.
\<close>

theorem rm_rf_cites_no_pattern:
  "contains ''rm '' (lower ''rm -rf /'')
   \<and> \<not> cites_dangerous_pattern
        (message (fst (execute_command idle_process [''command'' \<mapsto> ''rm -rf /''])))"
proof -
  have "contains ''rm '' (lower ''rm -rf /'')"
    by (simp add: lower_def lower_char_def)
  moreover have "execute_command idle_process [''command'' \<mapsto> ''rm -rf /'']
       = (failure not_allowed_message EXECUTE_COMMAND, [])"
    by (simp add: execute_command_def Let_def split_rm rm_not_safe)
  ultimately show ?thesis
    by (simp add: failure_def not_allowed_cites_nothing)
qed

text \<open>
  C3. When the first token of the command is on the allow-list and the case-folded
  command contains a deny-list pattern, the command is denied: no process is started,
  and the message names a deny-list pattern that occurs in the case-folded command
  (the first one in the order of the list).
\<close>

theorem deny_list_precedence:
  assumes "ps ''command'' = Some cmd"
    and "split_ws cmd = base # rest"
    and "base \<in> set safe_commands"
    and "pattern \<in> set dangerous_patterns"
    and "contains pattern (lower cmd)"
  shows "\<exists>p \<in> set dangerous_patterns. contains p (lower cmd)
           \<and> execute_command run ps = (failure (blocked_message p) EXECUTE_COMMAND, [])"
proof -
  from assms(4,5) have "first_dangerous (lower cmd) dangerous_patterns \<noteq> None"
    by (auto simp: first_dangerous_None)
  then obtain p where p: "first_dangerous (lower cmd) dangerous_patterns = Some p"
    by blast
  then have "p \<in> set dangerous_patterns \<and> contains p (lower cmd)"
    by (rule first_dangerous_Some)
  moreover from assms(1,2,3) p
  have "execute_command run ps = (failure (blocked_message p) EXECUTE_COMMAND, [])"
    by (simp add: execute_command_def Let_def)
  ultimately show ?thesis by blast
qed

theorem deny_list_precedence_witness:
  "[''command'' \<mapsto> ''chmod 777 notes.txt''] ''command'' = Some ''chmod 777 notes.txt''
   \<and> split_ws ''chmod 777 notes.txt'' = ''chmod'' # [''777'', ''notes.txt'']
   \<and> ''chmod'' \<in> set safe_commands
   \<and> ''chmod 777'' \<in> set dangerous_patterns
   \<and> contains ''chmod 777'' (lower ''chmod 777 notes.txt'')
   \<and> (\<exists>p \<in> set dangerous_patterns. contains p (lower ''chmod 777 notes.txt'')
         \<and> execute_command idle_process [''command'' \<mapsto> ''chmod 777 notes.txt'']
             = (failure (blocked_message p) EXECUTE_COMMAND, []))"
proof -
  have h1: "[''command'' \<mapsto> ''chmod 777 notes.txt''] ''command'' = Some ''chmod 777 notes.txt''"
    by simp
  have h2: "split_ws ''chmod 777 notes.txt'' = ''chmod'' # [''777'', ''notes.txt'']"
    by (simp add: split_ws_def isspace_def)
  have h3: "''chmod'' \<in> set safe_commands" by (simp add: safe_commands_def)
  have h4: "''chmod 777'' \<in> set dangerous_patterns" by (simp add: dangerous_patterns_def)
  have h5: "contains ''chmod 777'' (lower ''chmod 777 notes.txt'')"
    by (simp add: lower_def lower_char_def)
  from deny_list_precedence
    [where ps = "[''command'' \<mapsto> ''chmod 777 notes.txt'']" and run = idle_process,
      OF h1 h2 h3 h4 h5] h1 h2 h3 h4 h5
  show ?thesis by blast
qed

text \<open>
  The scan looks for each pattern as it is written in the case-folded command, so a
  pattern with an upper-case letter, such as \<open>kill -STOP\<close>, occurs in no case-folded
  command: \<open>kill -STOP 1\<close> passes the gate and is run as an argument vector.
\<close>

lemma upper_case_pattern_passes:
  "''kill -STOP'' \<in> set dangerous_patterns
   \<and> execute_command idle_process [''command'' \<mapsto> ''kill -STOP 1'']
       = (\<lparr>success = True, message = check_mark @ '' kill -STOP 1 (executed successfully)'',
           data = Some (ExecData [] [] 0 ''kill -STOP 1'' ''N/A''),
           command_type = EXECUTE_COMMAND, python_mode = False, python_code = None\<rparr>,
          [ArgvCall [''kill'', ''-STOP'', ''1''] argv_timeout])"
proof -
  have "split_ws ''kill -STOP 1'' = [''kill'', ''-STOP'', ''1'']"
    by (simp add: split_ws_def isspace_def)
  moreover have "''kill'' \<in> set safe_commands"
    by (simp add: safe_commands_def)
  moreover have "lower ''kill -STOP 1'' = ''kill -stop 1''"
    by code_simp
  then have "first_dangerous (lower ''kill -STOP 1'') dangerous_patterns = None"
    by (simp add: dangerous_patterns_def)
  moreover have "\<not> use_shell ''kill -STOP 1''"
    by (simp add: use_shell_def)
  moreover have "''kill -STOP'' \<in> set dangerous_patterns"
    by (simp add: dangerous_patterns_def)
  ultimately show ?thesis
    by (simp add: execute_command_def Let_def idle_process_def strip_def completed_message_def)
qed

text \<open>
  Every call of \<open>subprocess.run\<close> that \<open>_execute_command\<close> makes carries the time limit
  of its kind: \<open>shell_timeout\<close> for the shell, \<open>argv_timeout\<close> for an argument vector.
\<close>

lemma execute_command_call_timeout:
  assumes "execute_command run ps = (r, calls)" and "call \<in> set calls"
  shows "(case call of ShellCall c t \<Rightarrow> t = shell_timeout \<and> use_shell c
          | ArgvCall a t \<Rightarrow> t = argv_timeout)"
  using assms
  by (auto simp: execute_command_def Let_def split: list.splits if_splits option.splits)

text \<open>
  C5, as the code has it. The time limit of a literal argv command (10 seconds) is
  shorter than that of a shell-interpreted command (15 seconds), and the time limit of a
  generated script (5 seconds) is the shortest of the three.
\<close>

theorem timeouts_as_coded:
  "execution_timeout < argv_timeout \<and> argv_timeout < shell_timeout"
  by (simp add: execution_timeout_def argv_timeout_def shell_timeout_def)

text \<open>
  C5, as the claim states it, fails: the time limit of a generated script is not longer
  than that of a shell-interpreted command.
\<close>

theorem script_timeout_not_longest:
  "\<not> (argv_timeout < shell_timeout \<and> shell_timeout < execution_timeout)"
  by (simp add: execution_timeout_def argv_timeout_def shell_timeout_def)


section \<open>Properties of the script fallback\<close>

text \<open>
  C9. \<open>can_handle_with_python\<close> returns \<open>True\<close> for every request string and every
  failed-command-type value, \<open>None\<close> included: each of its three exits returns \<open>True\<close>,
  the final default one too, so the eligibility check never rejects a request.
\<close>

theorem can_handle_with_python_always_True:
  "can_handle_with_python user_request failed_command_type = True"
  by (simp add: can_handle_with_python_def Let_def)

text \<open>
  \<open>execute_with_python\<close> hands every generated script of at least ten characters to
  \<open>execute_python_code\<close>; \<open>is_safe_code\<close> takes no part in it.
\<close>

lemma execute_with_python_runs_any_script:
  assumes "generate user_request ctx = code" and "10 \<le> length (strip code)"
  shows "snd (execute_with_python generate run user_request ctx) = [code]"
proof -
  from assms(2) have "code \<noteq> []" by (auto simp: strip_def)
  with assms show ?thesis
    by (auto simp: execute_with_python_def Let_def split: prod.splits)
qed

text \<open>
  C4, at a script that imports \<open>subprocess\<close>: the static scan \<open>is_safe_code\<close> rejects
  the script, and \<open>execute_with_python\<close> runs it all the same, since it never calls the
  scan.
\<close>

theorem is_safe_code_never_consulted:
  "is_safe_code unsafe_script = (False, ''Subprocess execution not allowed'')
   \<and> snd (execute_with_python (scripted_generator unsafe_script) idle_python ''list my files'' None)
       = [unsafe_script]"
proof -
  have "is_safe_code unsafe_script = (False, ''Subprocess execution not allowed'')"
    by (simp add: is_safe_code_def unsafe_script_def code_patterns_def lower_def lower_char_def)
  moreover have "snd (execute_with_python (scripted_generator unsafe_script) idle_python
                    ''list my files'' None) = [unsafe_script]"
    by (rule execute_with_python_runs_any_script)
      (simp_all add: scripted_generator_def unsafe_script_def strip_def isspace_def)
  ultimately show ?thesis by simp
qed


section \<open>Properties of the process sandbox\<close>

lemma strip_replicate: "\<not> isspace c \<Longrightarrow> strip (replicate n c) = replicate n c"
  by (simp add: strip_def)

lemma split_ls: "split_ws ''ls'' = [''ls'']"
  by (simp add: split_ws_def isspace_def)

lemma ls_safe: "''ls'' \<in> set safe_commands"
  by (simp add: safe_commands_def)

lemma ls_not_dangerous: "first_dangerous (lower ''ls'') dangerous_patterns = None"
  by (simp add: lower_def lower_char_def dangerous_patterns_def)

lemma ls_no_shell: "\<not> use_shell ''ls''"
  by (simp add: use_shell_def)

lemma execute_ls_chatty:
  "execute_command chatty_process [''command'' \<mapsto> ''ls''] =
     (\<lparr>success = True,
       message = completed_message ''ls'' 0 (replicate 10001 CHR ''a'') (replicate 10001 CHR ''b''),
       data = Some (ExecData (replicate 10001 CHR ''a'') (replicate 10001 CHR ''b'') 0 ''ls'' ''N/A''),
       command_type = EXECUTE_COMMAND, python_mode = False, python_code = None\<rparr>,
      [ArgvCall [''ls''] argv_timeout])"
  by (simp add: execute_command_def Let_def split_ls ls_safe ls_not_dangerous ls_no_shell
      chatty_process_def strip_replicate isspace_def)

lemma execute_ls_failing:
  "execute_command failing_process [''command'' \<mapsto> ''ls''] =
     (\<lparr>success = False,
       message = completed_message ''ls'' 1 (replicate 10001 CHR ''a'') (replicate 10001 CHR ''b''),
       data = Some (ExecData (replicate 10001 CHR ''a'') (replicate 10001 CHR ''b'') 1 ''ls'' ''N/A''),
       command_type = EXECUTE_COMMAND, python_mode = False, python_code = None\<rparr>,
      [ArgvCall [''ls''] argv_timeout])"
  by (simp add: execute_command_def Let_def split_ls ls_safe ls_not_dangerous ls_no_shell
      failing_process_def strip_replicate isspace_def)

text \<open>
  C6, as the claim states it, fails. A command whose process writes 10001 characters to
  each stream returns both streams whole in the data of its result, longer than the cap;
  a script whose process does the same gets its standard output cut to exactly the cap,
  with no marker after it.
\<close>

theorem streams_exceed_cap:
  "max_output_size
     < length (stdout (the (data (fst (execute_command chatty_process [''command'' \<mapsto> ''ls''])))))
   \<and> max_output_size
     < length (stderr (the (data (fst (execute_command chatty_process [''command'' \<mapsto> ''ls''])))))
   \<and> fst (snd (execute_python_code chatty_python ''print(1)'')) = replicate max_output_size CHR ''a''"
  by (simp add: execute_ls_chatty max_output_size_def execute_python_code_def chatty_python_def)

text \<open>
  C6, as the code has it. Script execution: a process that completes returns each
  captured stream cut to at most \<open>max_output_size\<close> characters, with no marker; on a
  time-out or a failure to start, the standard output is empty and the error stream is
  the text of the error; so the standard output never exceeds \<open>max_output_size\<close>.
  Command execution: whatever the exit code, both stripped streams are returned whole in
  the data of the result. Only the message of a success cuts: it echoes the stripped
  standard output, cut to its first 2000 characters followed by the truncation marker
  when it is longer than 2000 characters. The message of a failed command carries both
  stripped streams whole.
\<close>

theorem output_caps_as_coded:
  "length (fst (snd (execute_python_code run code))) \<le> max_output_size
   \<and> (\<forall>rc out err. run code execution_timeout = Completed rc out err \<longrightarrow>
         execute_python_code run code
           = (rc = 0, take max_output_size out, take max_output_size err)
         \<and> length (snd (snd (execute_python_code run code))) \<le> max_output_size)
   \<and> (run code execution_timeout = TimeoutExpired \<longrightarrow>
         execute_python_code run code = (False, [], ''Execution timed out after 5 seconds''))
   \<and> (\<forall>e. run code execution_timeout = Raised e \<longrightarrow>
         execute_python_code run code = (False, [], e))
   \<and> (\<forall>cmd r call rc out err.
         ps ''command'' = Some cmd \<and> execute_command sub ps = (r, [call])
           \<and> sub call = Completed rc out err \<longrightarrow>
         data r = Some (ExecData (strip out) (strip err) rc cmd ''N/A'')
         \<and> (rc = 0 \<and> 2000 < length (strip out) \<longrightarrow>
              message r = check_mark @ '' '' @ cmd @ newline @ newline
                            @ take 2000 (strip out) @ truncation_marker)
         \<and> (rc = 0 \<and> strip out \<noteq> [] \<and> length (strip out) \<le> 2000 \<longrightarrow>
              message r = check_mark @ '' '' @ cmd @ newline @ newline @ strip out)
         \<and> (rc = 0 \<and> strip out = [] \<longrightarrow>
              message r = check_mark @ '' '' @ cmd @ '' (executed successfully)'')
         \<and> (rc \<noteq> 0 \<longrightarrow>
              message r = cross_mark @ '' Command failed (exit code '' @ str_int rc @ ''): '' @ cmd
                @ (if strip err \<noteq> []
                   then newline @ newline @ ''Error details:'' @ newline @ strip err else [])
                @ (if strip out \<noteq> []
                   then newline @ newline @ ''Output:'' @ newline @ strip out else [])))"
proof -
  have py_out: "length (fst (snd (execute_python_code run code))) \<le> max_output_size"
    by (simp add: execute_python_code_def split: proc_outcome.splits)
  have py_done: "execute_python_code run code
           = (rc = 0, take max_output_size out, take max_output_size err)
         \<and> length (snd (snd (execute_python_code run code))) \<le> max_output_size"
    if "run code execution_timeout = Completed rc out err" for rc out err
    using that by (simp add: execute_python_code_def)
  have py_timeout: "execute_python_code run code
           = (False, [], ''Execution timed out after 5 seconds'')"
    if "run code execution_timeout = TimeoutExpired"
  proof -
    have "str_nat execution_timeout = ''5''" by code_simp
    with that show ?thesis by (simp add: execute_python_code_def)
  qed
  have py_raised: "execute_python_code run code = (False, [], e)"
    if "run code execution_timeout = Raised e" for e
    using that by (simp add: execute_python_code_def)
  have cmd_part: "data r = Some (ExecData (strip out) (strip err) rc cmd ''N/A'')
         \<and> (rc = 0 \<and> 2000 < length (strip out) \<longrightarrow>
              message r = check_mark @ '' '' @ cmd @ newline @ newline
                            @ take 2000 (strip out) @ truncation_marker)
         \<and> (rc = 0 \<and> strip out \<noteq> [] \<and> length (strip out) \<le> 2000 \<longrightarrow>
              message r = check_mark @ '' '' @ cmd @ newline @ newline @ strip out)
         \<and> (rc = 0 \<and> strip out = [] \<longrightarrow>
              message r = check_mark @ '' '' @ cmd @ '' (executed successfully)'')
         \<and> (rc \<noteq> 0 \<longrightarrow>
              message r = cross_mark @ '' Command failed (exit code '' @ str_int rc @ ''): '' @ cmd
                @ (if strip err \<noteq> []
                   then newline @ newline @ ''Error details:'' @ newline @ strip err else [])
                @ (if strip out \<noteq> []
                   then newline @ newline @ ''Output:'' @ newline @ strip out else []))"
    if a: "ps ''command'' = Some cmd \<and> execute_command sub ps = (r, [call])
           \<and> sub call = Completed rc out err" for cmd r call rc out err
  proof -
    from a have r: "r = \<lparr>success = (rc = 0),
         message = completed_message cmd rc (strip out) (strip err),
         data = Some (ExecData (strip out) (strip err) rc cmd ''N/A''),
         command_type = EXECUTE_COMMAND, python_mode = False, python_code = None\<rparr>"
      by (auto simp: execute_command_def Let_def split: list.splits if_splits option.splits)
    show ?thesis
      by (simp add: r completed_message_def)
  qed
  from py_out py_done py_timeout py_raised cmd_part show ?thesis by blast
qed

theorem output_caps_as_coded_witness:
  "snd (execute_python_code chatty_python ''print(1)'')
      = (replicate 10000 CHR ''a'', replicate 10000 CHR ''b'')
   \<and> message (fst (execute_command chatty_process [''command'' \<mapsto> ''ls'']))
      = check_mark @ '' ls'' @ newline @ newline @ replicate 2000 CHR ''a'' @ truncation_marker
   \<and> data (fst (execute_command chatty_process [''command'' \<mapsto> ''ls'']))
      = Some (ExecData (replicate 10001 CHR ''a'') (replicate 10001 CHR ''b'') 0 ''ls'' ''N/A'')
   \<and> data (fst (execute_command failing_process [''command'' \<mapsto> ''ls'']))
      = Some (ExecData (replicate 10001 CHR ''a'') (replicate 10001 CHR ''b'') 1 ''ls'' ''N/A'')
   \<and> message (fst (execute_command failing_process [''command'' \<mapsto> ''ls'']))
      = cross_mark @ '' Command failed (exit code 1): ls''
          @ newline @ newline @ ''Error details:'' @ newline @ replicate 10001 CHR ''b''
          @ newline @ newline @ ''Output:'' @ newline @ replicate 10001 CHR ''a''"
proof -
  let ?ps = "[''command'' \<mapsto> ''ls'']"
  let ?call = "ArgvCall [''ls''] argv_timeout"
  let ?a = "replicate 10001 CHR ''a''"
  let ?b = "replicate 10001 CHR ''b''"
  have h1: "chatty_python ''print(1)'' execution_timeout = Completed 0 ?a ?b"
    by (simp add: chatty_python_def)
  have h2: "?ps ''command'' = Some ''ls''" by simp
  have "snd (execute_command chatty_process ?ps) = [?call]"
    by (simp add: execute_ls_chatty)
  then have h3: "execute_command chatty_process ?ps
      = (fst (execute_command chatty_process ?ps), [?call])"
    by (simp add: prod_eq_iff)
  have h4: "chatty_process ?call = Completed 0 ?a ?b"
    by (simp add: chatty_process_def)
  have "snd (execute_command failing_process ?ps) = [?call]"
    by (simp add: execute_ls_failing)
  then have f3: "execute_command failing_process ?ps
      = (fst (execute_command failing_process ?ps), [?call])"
    by (simp add: prod_eq_iff)
  have f4: "failing_process ?call = Completed 1 ?a ?b"
    by (simp add: failing_process_def)
  have sa: "strip ?a = ?a" and sb: "strip ?b = ?b"
    by (simp_all add: strip_replicate isspace_def)
  note t = output_caps_as_coded [where run = chatty_python and code = "''print(1)''"
      and ps = ?ps and sub = chatty_process]
  note u = output_caps_as_coded [where run = chatty_python and code = "''print(1)''"
      and ps = ?ps and sub = failing_process]
  from t h1 have p: "execute_python_code chatty_python ''print(1)''
      = (0 = (0::int), take max_output_size ?a, take max_output_size ?b)"
    by blast
  from t h2 h3 h4
  have c: "data (fst (execute_command chatty_process ?ps))
        = Some (ExecData (strip ?a) (strip ?b) 0 ''ls'' ''N/A'')
      \<and> (0 = (0::int) \<and> 2000 < length (strip ?a) \<longrightarrow>
           message (fst (execute_command chatty_process ?ps))
             = check_mark @ '' '' @ ''ls'' @ newline @ newline
                 @ take 2000 (strip ?a) @ truncation_marker)"
    by blast
  from u h2 f3 f4
  have d: "data (fst (execute_command failing_process ?ps))
        = Some (ExecData (strip ?a) (strip ?b) 1 ''ls'' ''N/A'')
      \<and> (1 \<noteq> (0::int) \<longrightarrow>
           message (fst (execute_command failing_process ?ps))
             = cross_mark @ '' Command failed (exit code '' @ str_int 1 @ ''): '' @ ''ls''
                @ (if strip ?b \<noteq> []
                   then newline @ newline @ ''Error details:'' @ newline @ strip ?b else [])
                @ (if strip ?a \<noteq> []
                   then newline @ newline @ ''Output:'' @ newline @ strip ?a else []))"
    by blast
  have one: "str_int 1 = ''1''" by code_simp
  from p c d show ?thesis
    by (simp add: max_output_size_def sa sb one)
qed


section \<open>Properties of the path guard\<close>

lemma startswith_iff: "startswith ps s = (\<exists>r. s = ps @ r)"
  by (induction ps s rule: startswith.induct) auto

text \<open>
  C1, as the code has it. For every input string, \<open>_normalize_path\<close> has one of three
  outcomes: it returns a resolved path that is the resolved allowed root followed by zero
  or more components (the root itself or a descendant of it); or it fails with
  \<open>PermissionError\<close>; or it fails with the exception that \<open>Path.resolve\<close> itself raised
  on a path. It returns no path outside the root.
\<close>

theorem normalize_path_confined_or_raises:
  "(\<exists>base rest. resolve env allowed_base_dir = Inr base
        \<and> normalize_path env allowed_base_dir p = Inr (base @ rest))
   \<or> (\<exists>msg. normalize_path env allowed_base_dir p = Inl (PermissionError msg))
   \<or> (\<exists>e s. resolve env s = Inl e \<and> normalize_path env allowed_base_dir p = Inl e)"
proof (cases "resolve env
    (expanduser env
      (case map_of common_folders (strip (lower p)) of
         Some folder_name \<Rightarrow>
           if \<not> contains ''/'' p \<and> \<not> contains [CHR 0x5C] p
           then (if folder_name \<noteq> [] then ''~/'' @ folder_name else ''~'')
           else p
       | None \<Rightarrow> p))")
  case (Inl e)
  then have "normalize_path env allowed_base_dir p = Inl e"
    by (simp add: normalize_path_def Let_def)
  with Inl show ?thesis by blast
next
  case normalized: (Inr np)
  show ?thesis
  proof (cases "resolve env allowed_base_dir")
    case (Inl e)
    with normalized have "normalize_path env allowed_base_dir p = Inl e"
      by (simp add: normalize_path_def Let_def)
    with Inl show ?thesis by blast
  next
    case (Inr base)
    show ?thesis
    proof (cases "startswith base np")
      case True
      then obtain rest where "np = base @ rest" by (auto simp: startswith_iff)
      with normalized Inr True
      have "normalize_path env allowed_base_dir p = Inr (base @ rest)"
        by (simp add: normalize_path_def Let_def relative_to_def)
      with Inr show ?thesis by blast
    next
      case False
      with normalized Inr
      have "\<exists>msg. normalize_path env allowed_base_dir p = Inl (PermissionError msg)"
        by (simp add: normalize_path_def Let_def relative_to_def)
      then show ?thesis by blast
    qed
  qed
qed

text \<open>
  C1, as the claim states it, fails at a path with a NUL character: \<open>Path.resolve\<close> raises
  \<open>ValueError\<close> outside the \<open>try\<close>, and the function fails with that error, which is
  neither a path nor \<open>PermissionError\<close>.
\<close>

theorem nul_path_raises_value_error:
  "normalize_path sample_env ''/home/user'' (''a'' @ [CHR 0x00] @ ''b'')
     = Inl (ValueError ''embedded null byte'')"
  by (simp add: normalize_path_def Let_def sample_env_def posix_env_def posix_resolve_def
      posix_expanduser_def common_folders_def lower_def lower_char_def strip_def isspace_def)

text \<open>The scenario of the specification, and two paths inside the root.\<close>

lemma etc_passwd_denied:
  "normalize_path sample_env ''/home/user'' ''../../etc/passwd''
     = Inl (PermissionError ''Access denied: ../../etc/passwd is outside allowed directories'')"
  by (simp add: normalize_path_def Let_def sample_env_def posix_env_def posix_resolve_def
      posix_expanduser_def relative_to_def common_folders_def lower_def lower_char_def
      strip_def isspace_def)






section \<open>Properties of admission control\<close>

lemma drop_old_keeps: "\<forall>e \<in> set dq. \<not> e < ws \<Longrightarrow> drop_old ws dq = dq"
  by (cases dq) auto

lemma drop_old_clears: "\<forall>e \<in> set dq. e < ws \<Longrightarrow> drop_old ws dq = []"
  by (induction dq) auto

lemma length_drop_old: "length (drop_old ws dq) \<le> length dq"
  by (induction dq) auto

lemma allow_request_bounded:
  assumes "length (bucket bs c) \<le> RATE_LIMIT_MAX_REQUESTS"
  shows "length (bucket (snd (allow_request now c' bs)) c) \<le> RATE_LIMIT_MAX_REQUESTS"
proof (cases "c = c'")
  case False
  then show ?thesis using assms by (simp add: allow_request_def Let_def bucket_def)
next
  case True
  have "length (drop_old (now - RATE_LIMIT_WINDOW_SEC) (bucket bs c)) \<le> RATE_LIMIT_MAX_REQUESTS"
    using length_drop_old [of "now - RATE_LIMIT_WINDOW_SEC" "bucket bs c"] assms by simp
  then show ?thesis
    using True by (auto simp: allow_request_def Let_def bucket_def)
qed

lemma reachable_bounded: "reachable bs \<Longrightarrow> length (bucket bs c) \<le> RATE_LIMIT_MAX_REQUESTS"
proof (induction rule: reachable.induct)
  case start
  show ?case by (simp add: bucket_def)
next
  case (step bs now client_id)
  from step.IH show ?case by (rule allow_request_bounded)
qed

lemma reachable_allow_requests: "reachable bs \<Longrightarrow> reachable (snd (allow_requests ts c bs))"
proof (induction ts arbitrary: bs)
  case Nil
  then show ?case by simp
next
  case (Cons t ts)
  from Cons.prems have "reachable (snd (allow_request t c bs))" by (rule reachable.step)
  then have "reachable (snd (allow_requests ts c (snd (allow_request t c bs))))"
    by (rule Cons.IH)
  then show ?case by (simp add: split_beta)
qed

lemma map_upt_shift: "map f [0..<Suc n] = f 0 # map (\<lambda>i. f (Suc i)) [0..<n]"
  by (simp only: upt_conv_Cons [of 0 "Suc n"] zero_less_Suc if_True list.map
      map_Suc_upt [symmetric] map_map comp_def)

lemma allow_request_in_window:
  assumes "\<forall>e \<in> set (bucket bs c). now - RATE_LIMIT_WINDOW_SEC \<le> e"
  shows "allow_request now c bs =
           (if length (bucket bs c) \<ge> RATE_LIMIT_MAX_REQUESTS then (False, bs(c \<mapsto> bucket bs c))
            else (True, bs(c \<mapsto> bucket bs c @ [now])))"
proof -
  from assms have "drop_old (now - RATE_LIMIT_WINDOW_SEC) (bucket bs c) = bucket bs c"
    by (intro drop_old_keeps) (auto simp: not_less)
  then show ?thesis by (simp add: allow_request_def Let_def bucket_def)
qed

lemma allow_requests_in_window:
  assumes "\<forall>e \<in> set (bucket bs c). \<forall>t \<in> set ts. t - RATE_LIMIT_WINDOW_SEC \<le> e"
    and "\<forall>t \<in> set ts. \<forall>t' \<in> set ts. t - RATE_LIMIT_WINDOW_SEC \<le> t'"
  shows "fst (allow_requests ts c bs)
           = map (\<lambda>i. length (bucket bs c) + i < RATE_LIMIT_MAX_REQUESTS) [0..<length ts]"
  using assms
proof (induction ts arbitrary: bs)
  case Nil
  then show ?case by simp
next
  case (Cons t ts)
  let ?dq = "bucket bs c"
  have step: "allow_request t c bs =
           (if length ?dq \<ge> RATE_LIMIT_MAX_REQUESTS then (False, bs(c \<mapsto> ?dq))
            else (True, bs(c \<mapsto> ?dq @ [t])))"
    using Cons.prems(1) by (intro allow_request_in_window) simp
  have pair: "\<forall>t \<in> set ts. \<forall>t' \<in> set ts. t - RATE_LIMIT_WINDOW_SEC \<le> t'"
    using Cons.prems(2) by simp
  show ?case
  proof (cases "length ?dq \<ge> RATE_LIMIT_MAX_REQUESTS")
    case True
    let ?bs = "bs(c \<mapsto> ?dq)"
    have b: "bucket ?bs c = ?dq" by (simp add: bucket_def)
    have "\<forall>e \<in> set (bucket ?bs c). \<forall>t \<in> set ts. t - RATE_LIMIT_WINDOW_SEC \<le> e"
      using Cons.prems(1) by (simp add: b)
    from Cons.IH [of ?bs, OF this pair]
    have "fst (allow_requests ts c ?bs)
            = map (\<lambda>i. length ?dq + i < RATE_LIMIT_MAX_REQUESTS) [0..<length ts]"
      by (simp only: b)
    moreover have "map (\<lambda>i. length ?dq + i < RATE_LIMIT_MAX_REQUESTS) [0..<length ts]
            = map (\<lambda>i. length ?dq + Suc i < RATE_LIMIT_MAX_REQUESTS) [0..<length ts]"
      using True by simp
    ultimately show ?thesis
      using True by (simp add: step map_upt_shift split_beta del: upt_Suc)
  next
    case False
    let ?bs = "bs(c \<mapsto> ?dq @ [t])"
    have b: "bucket ?bs c = ?dq @ [t]" by (simp add: bucket_def)
    have "\<forall>e \<in> set (bucket ?bs c). \<forall>t \<in> set ts. t - RATE_LIMIT_WINDOW_SEC \<le> e"
      using Cons.prems by (auto simp: b)
    from Cons.IH [of ?bs, OF this pair]
    have "fst (allow_requests ts c ?bs)
            = map (\<lambda>i. length (?dq @ [t]) + i < RATE_LIMIT_MAX_REQUESTS) [0..<length ts]"
      by (simp only: b)
    then have "fst (allow_requests ts c ?bs)
            = map (\<lambda>i. length ?dq + Suc i < RATE_LIMIT_MAX_REQUESTS) [0..<length ts]"
      by simp
    then show ?thesis
      using False by (simp add: step map_upt_shift split_beta del: upt_Suc)
  qed
qed

lemma allow_request_after_window:
  assumes "\<forall>e \<in> set (bucket bs c). e < now - RATE_LIMIT_WINDOW_SEC"
  shows "allow_request now c bs = (True, bs(c \<mapsto> [now]))"
proof -
  from assms have "drop_old (now - RATE_LIMIT_WINDOW_SEC) (bucket bs c) = []"
    by (rule drop_old_clears)
  then show ?thesis
    by (simp add: allow_request_def Let_def bucket_def RATE_LIMIT_MAX_REQUESTS_def)
qed

lemma allow_requests_fresh_window:
  assumes old: "\<forall>e \<in> set (bucket bs c). \<forall>t \<in> set ts. e < t - RATE_LIMIT_WINDOW_SEC"
    and pair: "\<forall>t \<in> set ts. \<forall>t' \<in> set ts. t - RATE_LIMIT_WINDOW_SEC \<le> t'"
  shows "fst (allow_requests ts c bs) = map (\<lambda>i. i < RATE_LIMIT_MAX_REQUESTS) [0..<length ts]"
proof (cases ts)
  case Nil
  then show ?thesis by simp
next
  case (Cons t ts')
  let ?bs = "bs(c \<mapsto> [t])"
  have first: "allow_request t c bs = (True, ?bs)"
    using old Cons by (intro allow_request_after_window) simp
  have b: "bucket ?bs c = [t]" by (simp add: bucket_def)
  have "\<forall>e \<in> set (bucket ?bs c). \<forall>t \<in> set ts'. t - RATE_LIMIT_WINDOW_SEC \<le> e"
    using pair Cons by (simp add: b)
  moreover have "\<forall>t \<in> set ts'. \<forall>t' \<in> set ts'. t - RATE_LIMIT_WINDOW_SEC \<le> t'"
    using pair Cons by simp
  ultimately have "fst (allow_requests ts' c ?bs)
      = map (\<lambda>i. length (bucket ?bs c) + i < RATE_LIMIT_MAX_REQUESTS) [0..<length ts']"
    by (rule allow_requests_in_window)
  then have "fst (allow_requests ts' c ?bs)
      = map (\<lambda>i. Suc i < RATE_LIMIT_MAX_REQUESTS) [0..<length ts']"
    by (simp only: b list.size One_nat_def add_Suc add_0)
  moreover have "0 < RATE_LIMIT_MAX_REQUESTS"
    by (simp add: RATE_LIMIT_MAX_REQUESTS_def)
  ultimately show ?thesis
    using Cons by (simp add: first map_upt_shift split_beta del: upt_Suc)
qed

lemma drop_old_sorted:
  "sorted dq \<Longrightarrow> drop_old ws dq = filter (\<lambda>e. ws \<le> e) dq"
proof (induction dq)
  case Nil
  show ?case by simp
next
  case (Cons x xs)
  show ?case
  proof (cases "x < ws")
    case True
    with Cons show ?thesis by simp
  next
    case False
    with Cons.prems have "\<forall>y \<in> set xs. ws \<le> y" by auto
    then have "filter (\<lambda>e. ws \<le> e) xs = xs" by simp
    with False show ?thesis by simp
  qed
qed

lemma allow_request_sorted:
  assumes "sorted (bucket bs c)"
  shows "allow_request now c bs =
           (if RATE_LIMIT_MAX_REQUESTS
                 \<le> length (filter (\<lambda>e. now - RATE_LIMIT_WINDOW_SEC \<le> e) (bucket bs c))
            then (False, bs(c \<mapsto> filter (\<lambda>e. now - RATE_LIMIT_WINDOW_SEC \<le> e) (bucket bs c)))
            else (True, bs(c \<mapsto> filter (\<lambda>e. now - RATE_LIMIT_WINDOW_SEC \<le> e) (bucket bs c) @ [now])))"
proof -
  from assms have "drop_old (now - RATE_LIMIT_WINDOW_SEC) (bucket bs c)
      = filter (\<lambda>e. now - RATE_LIMIT_WINDOW_SEC \<le> e) (bucket bs c)"
    by (rule drop_old_sorted)
  then show ?thesis by (simp add: allow_request_def Let_def bucket_def)
qed

lemma sorted_filter_keeps: "sorted (xs :: real list) \<Longrightarrow> sorted (filter P xs)"
  by (rule sorted_wrt_filter)

lemma allow_requests_refines:
  assumes "sorted (bucket bs c @ ts)"
    and "\<forall>t \<in> set ts. filter (\<lambda>e. t - RATE_LIMIT_WINDOW_SEC \<le> e) (bucket bs c)
                        = filter (\<lambda>e. t - RATE_LIMIT_WINDOW_SEC \<le> e) adm"
  shows "fst (allow_requests ts c bs) = sliding_window_spec adm ts"
  using assms
proof (induction ts arbitrary: bs adm)
  case Nil
  show ?case by simp
next
  case (Cons t ts)
  let ?dq = "bucket bs c"
  let ?live = "filter (\<lambda>e. t - RATE_LIMIT_WINDOW_SEC \<le> e) ?dq"
  from Cons.prems(1) have sdq: "sorted ?dq" by (simp add: sorted_append)
  have step: "allow_request t c bs =
           (if RATE_LIMIT_MAX_REQUESTS \<le> length ?live then (False, bs(c \<mapsto> ?live))
            else (True, bs(c \<mapsto> ?live @ [t])))"
    using sdq by (rule allow_request_sorted)
  have live: "?live = filter (\<lambda>e. t - RATE_LIMIT_WINDOW_SEC \<le> e) adm"
    using Cons.prems(2) by simp
  have later: "\<forall>t' \<in> set ts. t \<le> t'"
    using Cons.prems(1) by (simp add: sorted_append)
  have keep: "filter (\<lambda>e. t' - RATE_LIMIT_WINDOW_SEC \<le> e) ?live
                = filter (\<lambda>e. t' - RATE_LIMIT_WINDOW_SEC \<le> e) adm" if "t' \<in> set ts" for t'
  proof -
    from that later have "t \<le> t'" by simp
    then have "filter (\<lambda>e. t' - RATE_LIMIT_WINDOW_SEC \<le> e) ?live
                = filter (\<lambda>e. t' - RATE_LIMIT_WINDOW_SEC \<le> e) ?dq"
      by (auto simp: filter_filter intro!: filter_cong)
    with Cons.prems(2) that show ?thesis by simp
  qed
  show ?case
  proof (cases "RATE_LIMIT_MAX_REQUESTS \<le> length ?live")
    case True
    let ?bs = "bs(c \<mapsto> ?live)"
    have b: "bucket ?bs c = ?live" by (simp add: bucket_def)
    have s: "sorted (bucket ?bs c @ ts)"
      using Cons.prems(1) by (auto simp: b sorted_append sorted_filter_keeps)
    have k: "\<forall>t' \<in> set ts. filter (\<lambda>e. t' - RATE_LIMIT_WINDOW_SEC \<le> e) (bucket ?bs c)
                        = filter (\<lambda>e. t' - RATE_LIMIT_WINDOW_SEC \<le> e) adm"
      using keep by (simp only: b) blast
    from Cons.IH [of ?bs adm, OF s k]
    have "fst (allow_requests ts c ?bs) = sliding_window_spec adm ts" .
    with True live show ?thesis
      by (simp add: step split_beta)
  next
    case False
    let ?bs = "bs(c \<mapsto> ?live @ [t])"
    have b: "bucket ?bs c = ?live @ [t]" by (simp add: bucket_def)
    have s: "sorted (bucket ?bs c @ ts)"
      using Cons.prems(1) by (auto simp: b sorted_append sorted_filter_keeps)
    have k: "\<forall>t' \<in> set ts. filter (\<lambda>e. t' - RATE_LIMIT_WINDOW_SEC \<le> e) (bucket ?bs c)
                        = filter (\<lambda>e. t' - RATE_LIMIT_WINDOW_SEC \<le> e) (adm @ [t])"
      using keep by (simp only: b filter_append) simp
    from Cons.IH [of ?bs "adm @ [t]", OF s k]
    have "fst (allow_requests ts c ?bs) = sliding_window_spec (adm @ [t]) ts" .
    with False live show ?thesis
      by (simp add: step split_beta)
  qed
qed

lemma allow_requests_sliding:
  assumes "sorted (bucket bs c @ ts)"
  shows "fst (allow_requests ts c bs) = sliding_window_spec (bucket bs c) ts"
  using assms by (rule allow_requests_refines) simp

lemma admitted_times_Cons:
  "admitted_times (t # ts) (ok # oks) = (if ok then t # admitted_times ts oks else admitted_times ts oks)"
  by (simp add: admitted_times_def)

lemma spec_window_bound:
  assumes "sorted (adm @ ts)"
    and "\<forall>a. length (filter (\<lambda>e. a \<le> e \<and> e \<le> a + RATE_LIMIT_WINDOW_SEC) adm) \<le> RATE_LIMIT_MAX_REQUESTS"
  shows "length (filter (\<lambda>e. a \<le> e \<and> e \<le> a + RATE_LIMIT_WINDOW_SEC)
                   (adm @ admitted_times ts (sliding_window_spec adm ts)))
           \<le> RATE_LIMIT_MAX_REQUESTS"
  using assms
proof (induction ts arbitrary: adm)
  case Nil
  then show ?case by (simp add: admitted_times_def)
next
  case (Cons t ts)
  let ?W = RATE_LIMIT_WINDOW_SEC
  let ?N = RATE_LIMIT_MAX_REQUESTS
  show ?case
  proof (cases "length (filter (\<lambda>e. t - ?W \<le> e) adm) < ?N")
    case False
    from Cons.prems have "sorted (adm @ ts)" by (auto simp: sorted_append)
    from Cons.IH [OF this Cons.prems(2)] False show ?thesis
      by (simp add: admitted_times_Cons)
  next
    case True
    have le: "\<forall>e \<in> set adm. e \<le> t" using Cons.prems(1) by (auto simp: sorted_append)
    have s: "sorted ((adm @ [t]) @ ts)" using Cons.prems(1) by (auto simp: sorted_append)
    have w: "\<forall>b. length (filter (\<lambda>e. b \<le> e \<and> e \<le> b + ?W) (adm @ [t])) \<le> ?N"
    proof
      fix b
      show "length (filter (\<lambda>e. b \<le> e \<and> e \<le> b + ?W) (adm @ [t])) \<le> ?N"
      proof (cases "b \<le> t \<and> t \<le> b + ?W")
        case False
        with Cons.prems(2) show ?thesis by auto
      next
        case in_window: True
        have "length (filter (\<lambda>e. b \<le> e \<and> e \<le> b + ?W) adm)
                \<le> length (filter (\<lambda>e. t - ?W \<le> e) adm)"
        proof -
          have "filter (\<lambda>e. b \<le> e \<and> e \<le> b + ?W) adm
                  = filter (\<lambda>e. b \<le> e) (filter (\<lambda>e. t - ?W \<le> e) adm)"
            using in_window le by (auto simp: filter_filter intro!: filter_cong)
          then show ?thesis by (simp only: length_filter_le)
        qed
        with True in_window show ?thesis by simp
      qed
    qed
    from Cons.IH [OF s w] True show ?thesis
      by (simp add: admitted_times_Cons)
  qed
qed

text \<open>
  C7. For one client, with \<open>time.time()\<close> not running backwards where the timestamps are
  asked to be sorted: (1) in every table the process can hold, the bucket has at most
  \<open>RATE_LIMIT_MAX_REQUESTS\<close> timestamps; (2) a call prunes exactly the timestamps older
  than the window and keeps every other one, rejects when the timestamps left are
  \<open>RATE_LIMIT_MAX_REQUESTS\<close> or more, and admits and records the request otherwise,
  whatever mix of expired and live timestamps the bucket holds; (3) over any sequence of
  requests the answers are those of the limiter that never prunes and rejects once the
  count of admitted requests in the window has reached the maximum; (4) starting from an
  empty bucket, the admitted requests in any interval of one window length are at most
  \<open>RATE_LIMIT_MAX_REQUESTS\<close>; (5) when every timestamp left in the bucket is older than
  the window at each of the request times \<open>ts\<close>, and no two of these times are further
  apart than the window, the first \<open>RATE_LIMIT_MAX_REQUESTS\<close> requests are admitted and
  every later one is rejected; (6) once the window has elapsed since every timestamp of
  the bucket, the pruning empties the bucket and the request is admitted as the first of
  a new count.
\<close>

theorem rate_limiter_sliding_window:
  "(reachable bs \<longrightarrow> length (bucket bs c) \<le> RATE_LIMIT_MAX_REQUESTS)
   \<and> (sorted (bucket bs c) \<longrightarrow>
        allow_request now c bs =
          (if RATE_LIMIT_MAX_REQUESTS
                \<le> length (filter (\<lambda>e. now - RATE_LIMIT_WINDOW_SEC \<le> e) (bucket bs c))
           then (False, bs(c \<mapsto> filter (\<lambda>e. now - RATE_LIMIT_WINDOW_SEC \<le> e) (bucket bs c)))
           else (True,
                 bs(c \<mapsto> filter (\<lambda>e. now - RATE_LIMIT_WINDOW_SEC \<le> e) (bucket bs c) @ [now]))))
   \<and> (sorted (bucket bs c @ ts) \<longrightarrow>
        fst (allow_requests ts c bs) = sliding_window_spec (bucket bs c) ts)
   \<and> (bucket bs c = [] \<and> sorted ts \<longrightarrow>
        length (filter (\<lambda>e. a \<le> e \<and> e \<le> a + RATE_LIMIT_WINDOW_SEC)
                  (admitted_times ts (fst (allow_requests ts c bs))))
          \<le> RATE_LIMIT_MAX_REQUESTS)
   \<and> ((\<forall>e \<in> set (bucket bs c). \<forall>t \<in> set ts. e < t - RATE_LIMIT_WINDOW_SEC)
        \<and> (\<forall>t \<in> set ts. \<forall>t' \<in> set ts. t - RATE_LIMIT_WINDOW_SEC \<le> t') \<longrightarrow>
        fst (allow_requests ts c bs) = map (\<lambda>i. i < RATE_LIMIT_MAX_REQUESTS) [0..<length ts])
   \<and> ((\<forall>e \<in> set (bucket bs c). e < now - RATE_LIMIT_WINDOW_SEC) \<longrightarrow>
        allow_request now c bs = (True, bs(c \<mapsto> [now])))"
proof -
  have bound: "length (filter (\<lambda>e. a \<le> e \<and> e \<le> a + RATE_LIMIT_WINDOW_SEC)
                  (admitted_times ts (fst (allow_requests ts c bs))))
          \<le> RATE_LIMIT_MAX_REQUESTS"
    if "bucket bs c = [] \<and> sorted ts"
  proof -
    from that have "fst (allow_requests ts c bs) = sliding_window_spec [] ts"
      using allow_requests_sliding [of bs c ts] by simp
    moreover from that
    have "length (filter (\<lambda>e. a \<le> e \<and> e \<le> a + RATE_LIMIT_WINDOW_SEC)
                   ([] @ admitted_times ts (sliding_window_spec [] ts)))
           \<le> RATE_LIMIT_MAX_REQUESTS"
      by (intro spec_window_bound) simp_all
    ultimately show ?thesis by simp
  qed
  from reachable_bounded allow_request_sorted allow_requests_sliding bound
    allow_requests_fresh_window allow_request_after_window
  show ?thesis by blast
qed

theorem rate_limiter_sliding_window_witness:
  "fst (allow_requests sliding ''chat:127.0.0.1'' Map.empty)
     = [True, True, True, True, True, True, True, True, True, True, False, True, False]
   \<and> allow_request 30.5 ''chat:127.0.0.1'' [''chat:127.0.0.1'' \<mapsto> [0, 1, 2, 3, 4, 5, 6, 7, 8, 9]]
       = (True, [''chat:127.0.0.1'' \<mapsto> [1, 2, 3, 4, 5, 6, 7, 8, 9, 30.5]])
   \<and> length (filter (\<lambda>e. 0.5 \<le> e \<and> e \<le> 0.5 + RATE_LIMIT_WINDOW_SEC)
               (admitted_times sliding (fst (allow_requests sliding ''chat:127.0.0.1'' Map.empty))))
       \<le> RATE_LIMIT_MAX_REQUESTS
   \<and> fst (allow_requests burst ''chat:127.0.0.1'' Map.empty)
     = [True, True, True, True, True, True, True, True, True, True, False]
   \<and> length (bucket (snd (allow_requests burst ''chat:127.0.0.1'' Map.empty)) ''chat:127.0.0.1'')
       \<le> RATE_LIMIT_MAX_REQUESTS
   \<and> allow_request 61 ''chat:127.0.0.1'' (snd (allow_requests burst ''chat:127.0.0.1'' Map.empty))
       = (True, [''chat:127.0.0.1'' \<mapsto> [61]])"
proof -
  let ?c = "''chat:127.0.0.1''"
  let ?bs = "snd (allow_requests burst ?c Map.empty)"
  let ?full = "[?c \<mapsto> [0, 1, 2, 3, 4, 5, 6, 7, 8, 9 :: real]]"
  have st: "?bs = ?full"
    by (simp add: burst_def allow_request_def Let_def RATE_LIMIT_WINDOW_SEC_def
        RATE_LIMIT_MAX_REQUESTS_def)
  have h1: "reachable ?bs"
    by (rule reachable_allow_requests) (rule reachable.start)
  have h2: "\<forall>e \<in> set (bucket Map.empty ?c). \<forall>t \<in> set burst. e < t - RATE_LIMIT_WINDOW_SEC"
    by (simp add: bucket_def)
  have h3: "\<forall>t \<in> set burst. \<forall>t' \<in> set burst. t - RATE_LIMIT_WINDOW_SEC \<le> t'"
    by (simp add: burst_def RATE_LIMIT_WINDOW_SEC_def)
  have h4: "\<forall>e \<in> set (bucket ?bs ?c). e < 61 - RATE_LIMIT_WINDOW_SEC"
    by (simp add: st bucket_def RATE_LIMIT_WINDOW_SEC_def)
  have h5: "sorted (bucket Map.empty ?c @ sliding)"
    by (simp add: bucket_def sliding_def)
  have h6: "bucket Map.empty ?c = [] \<and> sorted sliding"
    by (simp add: bucket_def sliding_def)
  have h7: "sorted (bucket ?full ?c)"
    by (simp add: bucket_def)
  note t1 = rate_limiter_sliding_window [where bs = Map.empty and c = ?c and ts = burst]
  note t2 = rate_limiter_sliding_window [where bs = ?bs and c = ?c and now = 61]
  note t3 = rate_limiter_sliding_window
    [where bs = Map.empty and c = ?c and ts = sliding and a = "0.5"]
  note t4 = rate_limiter_sliding_window [where bs = ?full and c = ?c and now = "30.5"]
  from t1 h2 h3 have a: "fst (allow_requests burst ?c Map.empty)
      = map (\<lambda>i. i < RATE_LIMIT_MAX_REQUESTS) [0..<length burst]"
    by blast
  have b: "map (\<lambda>i. i < RATE_LIMIT_MAX_REQUESTS) [0..<length burst]
      = [True, True, True, True, True, True, True, True, True, True, False]"
    by (simp add: burst_def RATE_LIMIT_MAX_REQUESTS_def upt_rec)
  from t2 h1 have c: "length (bucket ?bs ?c) \<le> RATE_LIMIT_MAX_REQUESTS"
    by blast
  from t2 h4 have d: "allow_request 61 ?c ?bs = (True, ?bs(?c \<mapsto> [61]))"
    by blast
  have e: "?bs(?c \<mapsto> [61]) = [?c \<mapsto> [61]]"
    by (simp only: st fun_upd_upd)
  from t3 h5 have f: "fst (allow_requests sliding ?c Map.empty)
      = sliding_window_spec (bucket Map.empty ?c) sliding"
    by blast
  have g: "sliding_window_spec (bucket Map.empty ?c) sliding
      = [True, True, True, True, True, True, True, True, True, True, False, True, False]"
    by (simp add: bucket_def sliding_def RATE_LIMIT_WINDOW_SEC_def RATE_LIMIT_MAX_REQUESTS_def)
  from t3 h6 have h: "length (filter (\<lambda>e. 0.5 \<le> e \<and> e \<le> 0.5 + RATE_LIMIT_WINDOW_SEC)
               (admitted_times sliding (fst (allow_requests sliding ?c Map.empty))))
       \<le> RATE_LIMIT_MAX_REQUESTS"
    by blast
  from t4 h7 have i: "allow_request 30.5 ?c ?full =
          (if RATE_LIMIT_MAX_REQUESTS
                \<le> length (filter (\<lambda>e. 30.5 - RATE_LIMIT_WINDOW_SEC \<le> e) (bucket ?full ?c))
           then (False, ?full(?c \<mapsto> filter (\<lambda>e. 30.5 - RATE_LIMIT_WINDOW_SEC \<le> e) (bucket ?full ?c)))
           else (True,
                 ?full(?c \<mapsto> filter (\<lambda>e. 30.5 - RATE_LIMIT_WINDOW_SEC \<le> e) (bucket ?full ?c) @ [30.5])))"
    by blast
  have j: "allow_request 30.5 ?c ?full = (True, [?c \<mapsto> [1, 2, 3, 4, 5, 6, 7, 8, 9, 30.5]])"
    by (subst i) (simp add: bucket_def RATE_LIMIT_WINDOW_SEC_def RATE_LIMIT_MAX_REQUESTS_def)
  from a b c d e f g h j show ?thesis by simp
qed

lemma map_of_od_set: "map_of (od_set k x kvs) k = Some x"
  by (induction kvs) auto

lemma filter_od_set:
  "filter (\<lambda>kv. fst kv \<noteq> k) (od_set k x kvs) = filter (\<lambda>kv. fst kv \<noteq> k) kvs"
  by (induction kvs) auto

lemma filter_absent: "map_of kvs k = None \<Longrightarrow> filter (\<lambda>kv. fst kv \<noteq> k) kvs = kvs"
  by (induction kvs) (auto split: if_splits)

lemma move_to_end_od_set:
  "move_to_end k (od_set k x kvs) = filter (\<lambda>kv. fst kv \<noteq> k) kvs @ [(k, x)]"
  by (simp add: move_to_end_def map_of_od_set filter_od_set)

lemma length_filter_present:
  "distinct (map fst kvs) \<Longrightarrow> map_of kvs k = Some x
     \<Longrightarrow> Suc (length (filter (\<lambda>kv. fst kv \<noteq> k) kvs)) = length kvs"
proof (induction kvs)
  case Nil
  then show ?case by simp
next
  case (Cons kv kvs)
  show ?case
  proof (cases "fst kv = k")
    case True
    with Cons.prems have "map_of kvs k = None"
      by (auto simp: map_of_eq_None_iff)
    then show ?thesis using True by (simp add: filter_absent)
  next
    case False
    with Cons show ?thesis by simp
  qed
qed

lemma map_of_filter_out: "map_of (filter (\<lambda>kv. fst kv \<noteq> k) kvs) k = None"
  by (induction kvs) auto

lemma distinct_filter_keys:
  "distinct (map fst kvs) \<Longrightarrow> distinct (map fst (filter P kvs))"
  by (induction kvs) auto

text \<open>
  C8. For a cache with distinct keys, within its capacity, of capacity at least one (the
  intent cache has capacity 256): (1) a lookup of an entry whose timestamp is more than
  \<open>ttl\<close> seconds old returns \<open>None\<close> and removes the entry, the others staying in order;
  (2) a lookup of a younger entry returns its value and moves the entry to the most
  recent end, the others staying in order; (3) an insertion of a new key into a full
  cache removes exactly the first entry, the least recently used, and puts the new entry
  at the most recent end; (4) any other insertion removes nothing but the old entry of
  the same key; and insertion keeps the keys distinct and the cache within its capacity.
\<close>

theorem lru_cache_ttl:
  assumes "distinct (map fst (store c))"
    and "length (store c) \<le> max_size c"
    and "0 < max_size c"
  shows "(\<forall>ts v. map_of (store c) k = Some (ts, v) \<and> now - ts > real_of_int (ttl c) \<longrightarrow>
            fst (cache_get now k c) = None
            \<and> store (snd (cache_get now k c)) = filter (\<lambda>kv. fst kv \<noteq> k) (store c)
            \<and> map_of (store (snd (cache_get now k c))) k = None)
       \<and> (\<forall>ts v. map_of (store c) k = Some (ts, v) \<and> \<not> now - ts > real_of_int (ttl c) \<longrightarrow>
            fst (cache_get now k c) = Some v
            \<and> store (snd (cache_get now k c))
                = filter (\<lambda>kv. fst kv \<noteq> k) (store c) @ [(k, (ts, v))])
       \<and> (map_of (store c) k = None \<and> length (store c) = max_size c \<longrightarrow>
            store (cache_set now k v' c) = tl (store c) @ [(k, (now, v'))])
       \<and> (\<not> (map_of (store c) k = None \<and> length (store c) = max_size c) \<longrightarrow>
            store (cache_set now k v' c)
              = filter (\<lambda>kv. fst kv \<noteq> k) (store c) @ [(k, (now, v'))])
       \<and> distinct (map fst (store (cache_set now k v' c)))
       \<and> length (store (cache_set now k v' c)) \<le> max_size c"
proof -
  let ?s = "store c"
  let ?rest = "filter (\<lambda>kv. fst kv \<noteq> k) ?s"
  have full: "store (cache_set now k v' c) = tl ?s @ [(k, (now, v'))]"
    if "map_of ?s k = None" and "length ?s = max_size c"
  proof -
    from that(2) assms(3) have "?s \<noteq> []" by auto
    with that show ?thesis
      by (simp add: cache_set_def move_to_end_od_set filter_absent Let_def)
  qed
  have room: "store (cache_set now k v' c) = ?rest @ [(k, (now, v'))]"
    if "\<not> (map_of ?s k = None \<and> length ?s = max_size c)"
  proof (cases "map_of ?s k")
    case None
    with that assms(2) have "length ?s < max_size c" by simp
    with None show ?thesis
      by (simp add: cache_set_def move_to_end_od_set filter_absent Let_def)
  next
    case (Some x)
    from length_filter_present [OF assms(1) Some] assms(2)
    have "length ?rest < max_size c" by simp
    then show ?thesis
      by (simp add: cache_set_def move_to_end_od_set Let_def)
  qed
  have d: "distinct (map fst (store (cache_set now k v' c)))"
  proof (cases "map_of ?s k = None \<and> length ?s = max_size c")
    case True
    then have "k \<notin> fst ` set ?s" by (simp add: map_of_eq_None_iff)
    moreover have "set (tl ?s) \<subseteq> set ?s" by (cases ?s) auto
    ultimately have "k \<notin> fst ` set (tl ?s)" by blast
    moreover have "distinct (map fst (tl ?s))"
      using assms(1) by (cases ?s) auto
    ultimately show ?thesis using True by (simp add: full)
  next
    case False
    have "k \<notin> fst ` set ?rest" by auto
    with False show ?thesis
      by (simp add: room distinct_filter_keys [OF assms(1)])
  qed
  have l: "length (store (cache_set now k v' c)) \<le> max_size c"
  proof (cases "map_of ?s k = None \<and> length ?s = max_size c")
    case True
    with assms(3) show ?thesis by (simp add: full)
  next
    case False
    show ?thesis
    proof (cases "map_of ?s k")
      case None
      with False assms(2) show ?thesis by (simp add: room filter_absent)
    next
      case (Some x)
      from length_filter_present [OF assms(1) Some] assms(2) False show ?thesis
        by (simp add: room)
    qed
  qed
  have expired: "fst (cache_get now k c) = None
            \<and> store (snd (cache_get now k c)) = ?rest
            \<and> map_of (store (snd (cache_get now k c))) k = None"
    if "map_of ?s k = Some (ts, v) \<and> now - ts > real_of_int (ttl c)" for ts v
    using that by (simp add: cache_get_def od_del_def map_of_filter_out)
  have hit: "fst (cache_get now k c) = Some v
            \<and> store (snd (cache_get now k c)) = ?rest @ [(k, (ts, v))]"
    if "map_of ?s k = Some (ts, v) \<and> \<not> now - ts > real_of_int (ttl c)" for ts v
    using that by (simp add: cache_get_def move_to_end_def)
  from expired hit full room d l show ?thesis by blast
qed

theorem lru_cache_ttl_witness:
  "fst (cache_get 200 ''a'' small_cache) = None
   \<and> store (snd (cache_get 200 ''a'' small_cache)) = [(''b'', 100, 2)]
   \<and> fst (cache_get 150 ''a'' small_cache) = Some 1
   \<and> store (snd (cache_get 150 ''a'' small_cache)) = [(''b'', 100, 2), (''a'', 0, 1)]
   \<and> store (cache_set 160 ''c'' 3 small_cache) = [(''b'', 100, 2), (''c'', 160, 3)]
   \<and> store (cache_set 160 ''b'' 4 small_cache) = [(''a'', 0, 1), (''b'', 160, 4)]"
proof -
  have h1: "distinct (map fst (store small_cache))" by (simp add: small_cache_def)
  have h2: "length (store small_cache) \<le> max_size small_cache" by (simp add: small_cache_def)
  have h3: "0 < max_size small_cache" by (simp add: small_cache_def)
  have a: "map_of (store small_cache) ''a'' = Some (0, 1)" by (simp add: small_cache_def)
  have old: "200 - (0::real) > real_of_int (ttl small_cache)" by (simp add: small_cache_def)
  have young: "\<not> 150 - (0::real) > real_of_int (ttl small_cache)" by (simp add: small_cache_def)
  have c: "map_of (store small_cache) ''c'' = None \<and> length (store small_cache) = max_size small_cache"
    by (simp add: small_cache_def)
  have b: "\<not> (map_of (store small_cache) ''b'' = None \<and> length (store small_cache) = max_size small_cache)"
    by (simp add: small_cache_def)
  from lru_cache_ttl [OF h1 h2 h3, where k = "''a''" and now = 200] a old
  have r1: "fst (cache_get 200 ''a'' small_cache) = None
     \<and> store (snd (cache_get 200 ''a'' small_cache)) = filter (\<lambda>kv. fst kv \<noteq> ''a'') (store small_cache)"
    by blast
  from lru_cache_ttl [OF h1 h2 h3, where k = "''a''" and now = 150] a young
  have r2: "fst (cache_get 150 ''a'' small_cache) = Some 1
     \<and> store (snd (cache_get 150 ''a'' small_cache))
         = filter (\<lambda>kv. fst kv \<noteq> ''a'') (store small_cache) @ [(''a'', (0, 1))]"
    by blast
  from lru_cache_ttl [OF h1 h2 h3, where k = "''c''" and now = 160 and v' = 3] c
  have r3: "store (cache_set 160 ''c'' 3 small_cache) = tl (store small_cache) @ [(''c'', (160, 3))]"
    by blast
  from lru_cache_ttl [OF h1 h2 h3, where k = "''b''" and now = 160 and v' = 4] b
  have r4: "store (cache_set 160 ''b'' 4 small_cache)
      = filter (\<lambda>kv. fst kv \<noteq> ''b'') (store small_cache) @ [(''b'', (160, 4))]"
    by blast
  from r1 r2 r3 r4 show ?thesis by (simp add: small_cache_def)
qed

text \<open>
  The cache invariant (distinct keys, size within a capacity of at least one) holds of the
  intent cache at its creation, and \<open>get\<close> keeps it as \<open>set\<close> does.
\<close>

lemma intent_cache_invariant:
  "distinct (map fst (store intent_cache))
   \<and> length (store intent_cache) \<le> max_size intent_cache
   \<and> 0 < max_size intent_cache"
  by (simp add: intent_cache_def)

lemma cache_get_keeps_invariant:
  assumes "distinct (map fst (store c))" and "length (store c) \<le> max_size c"
  shows "distinct (map fst (store (snd (cache_get now k c))))
         \<and> length (store (snd (cache_get now k c))) \<le> max_size c
         \<and> max_size (snd (cache_get now k c)) = max_size c"
proof (cases "map_of (store c) k")
  case None
  with assms show ?thesis by (simp add: cache_get_def)
next
  case (Some x)
  obtain ts v where x: "x = (ts, v)" by (cases x)
  have d: "distinct (map fst (filter (\<lambda>kv. fst kv \<noteq> k) (store c)))"
    using assms(1) by (rule distinct_filter_keys)
  have n: "k \<notin> fst ` set (filter (\<lambda>kv. fst kv \<noteq> k) (store c))" by auto
  have l: "Suc (length (filter (\<lambda>kv. fst kv \<noteq> k) (store c))) = length (store c)"
    using assms(1) Some by (rule length_filter_present)
  show ?thesis
  proof (cases "now - ts > real_of_int (ttl c)")
    case True
    with Some x d l assms(2) show ?thesis
      by (simp add: cache_get_def od_del_def)
  next
    case False
    with Some x d n l assms(2) show ?thesis
      by (simp add: cache_get_def move_to_end_def)
  qed
qed

end
